theory Spec2Isabelle
  imports Main
begin

section \<open>Strings and special URL schemes\<close>

text \<open>
  A \<open>std::string\<close> is a \<^typ>\<open>string\<close> (a list of bytes). The three scheme
  constants and their lengths are those of the anonymous namespace at the top of
  \<^verbatim>\<open>WebUrlLoaderClient.cpp\<close>.
\<close>

definition androidAsset :: string where
  "androidAsset = ''file:///android_asset/''"

definition androidResource :: string where
  "androidResource = ''file:///android_res/''"

definition androidContent :: string where
  "androidContent = ''content:''"

definition androidAssetLen :: nat where
  "androidAssetLen = length androidAsset"

definition androidResourceLen :: nat where
  "androidResourceLen = length androidResource"

definition androidContentLen :: nat where
  "androidContentLen = length androidContent"

text \<open>
  \<open>url.compare(0, len, s)\<close> compares the substring of \<open>url\<close> that starts at
  position 0 and has at most \<open>len\<close> characters with the whole of \<open>s\<close>. The source only
  tests the result against zero, so the model returns whether the two are equal.
\<close>

definition compare0 :: "string \<Rightarrow> nat \<Rightarrow> string \<Rightarrow> bool" where
  "compare0 url len s = (take len url = s)"

definition isAndroidUrl :: "string \<Rightarrow> bool" where
  "isAndroidUrl url =
     (if compare0 url androidAssetLen androidAsset then True
      else if compare0 url androidResourceLen androidResource then True
      else if compare0 url androidContentLen androidContent then True
      else False)"

section \<open>Request shaping (WebResourceRequest.cpp)\<close>

type_synonym headers = "(string \<times> string) list"

text \<open>
  A body part of the form data. \<open>encodedBlob\<close> stands for every element kind other than
  \<open>data\<close> and \<open>encodedFile\<close>: the source sends both the blob case and the default case
  of its switch to the same assertion.
\<close>

datatype FormDataElement =
    data string
  | encodedFile string
  | encodedBlob string

text \<open>
  The \<open>WebCore::ResourceRequest\<close> handed in by the owner. \<open>httpHeaderFields\<close> lists the
  entries of the header map in iteration order; \<open>httpBody\<close> is \<open>None\<close> when the
  request carries no body.
\<close>

record ResourceRequest =
  httpHeaderFields :: headers
  httpMethod :: string
  httpReferrer :: string
  httpUserAgent :: string
  url :: string
  httpBody :: "FormDataElement list option"

record WebResourceRequest =
  m_requestHeaders :: headers
  m_method :: string
  m_referrer :: string
  m_userAgent :: string
  m_url :: string

text \<open>
  The strings of the request arrive as \<open>utf8().data()\<close>, a pointer to characters, and are
  turned into \<open>std::string\<close> from that pointer: the result ends before the first NUL
  byte.
\<close>

definition fromCString :: "string \<Rightarrow> string" where
  "fromCString s = takeWhile (\<lambda>c. c \<noteq> CHR 0x00) s"

text \<open>
  \<open>ToLowerASCII\<close> maps \<open>A\<close>..\<open>Z\<close> to \<open>a\<close>..\<open>z\<close> and leaves every other byte alone.
  \<open>LowerCaseEqualsASCII a b\<close> walks \<open>a\<close> and the lower-case literal \<open>b\<close> together and
  succeeds when the lowered \<open>a\<close> is \<open>b\<close>.
\<close>

definition ToLowerASCII :: "char \<Rightarrow> char" where
  "ToLowerASCII c =
     (let n = (of_char c :: nat)
      in if 65 \<le> n \<and> n \<le> 90 then char_of (n + 32) else c)"

fun LowerCaseEqualsASCII :: "string \<Rightarrow> string \<Rightarrow> bool" where
  "LowerCaseEqualsASCII [] b = (b = [])"
| "LowerCaseEqualsASCII (c # a) [] = False"
| "LowerCaseEqualsASCII (c # a) (d # b) =
     (if ToLowerASCII c \<noteq> d then False else LowerCaseEqualsASCII a b)"

text \<open>
  \<open>net::HttpRequestHeaders::SetHeader\<close> belongs to the network library: it overwrites the
  value of an entry whose name equals the key up to ASCII case, and appends a new entry
  when there is none.
\<close>

fun SetHeader :: "string \<Rightarrow> string \<Rightarrow> headers \<Rightarrow> headers" where
  "SetHeader key val [] = [(key, val)]"
| "SetHeader key val ((k, v) # hs) =
     (if map ToLowerASCII k = map ToLowerASCII key then (k, val) # hs
      else (k, v) # SetHeader key val hs)"

text \<open>
  The loop of the constructor over the header map: the first argument is what is left to
  iterate, the second the headers set so far.
\<close>

fun copyHeaders :: "headers \<Rightarrow> headers \<Rightarrow> headers" where
  "copyHeaders [] out = out"
| "copyHeaders ((first, second) # rest) out =
     (let nameUtf8 = fromCString first;
          valueUtf8 = fromCString second
      in if LowerCaseEqualsASCII nameUtf8 ''referer'' \<or> LowerCaseEqualsASCII nameUtf8 ''user-agent''
         then copyHeaders rest out
         else if LowerCaseEqualsASCII nameUtf8 ''cache-control''
                 \<and> LowerCaseEqualsASCII valueUtf8 ''max-age=0''
         then copyHeaders rest out
         else copyHeaders rest (SetHeader nameUtf8 valueUtf8 out))"

definition WebResourceRequest_ctor :: "ResourceRequest \<Rightarrow> WebResourceRequest" where
  "WebResourceRequest_ctor resourceRequest =
     \<lparr> m_requestHeaders = copyHeaders (httpHeaderFields resourceRequest) [],
       m_method = fromCString (httpMethod resourceRequest),
       m_referrer = fromCString (httpReferrer resourceRequest),
       m_userAgent = fromCString (httpUserAgent resourceRequest),
       m_url = fromCString (url resourceRequest) \<rparr>"

section \<open>The bridge and its environment (WebUrlLoaderClient.cpp)\<close>

text \<open>
  Dereferencing a null smart pointer, the \<open>CRASH()\<close> macro and a failed \<open>LOG_ASSERT\<close>
  end the run; each is a value of \<open>error\<close>, and an operation that can hit one returns
  \<open>error + 'a\<close>.
\<close>

datatype error = NullDereference | Crashed | AssertionFailed

text \<open>
  Modelled from the spec: the macro \<open>CRASH()\<close> is defined outside the sources. Reaching
  it is a fatal contract violation: the process halts.
\<close>

definition CRASH :: "error + 'a" where
  "CRASH = Inl Crashed"

text \<open>
  Modelled from the spec: the macro \<open>LOG_ASSERT\<close> is defined outside the sources. An
  assertion that does not hold is a fatal programming-contract violation.
\<close>

definition LOG_ASSERT :: "bool \<Rightarrow> error + unit" where
  "LOG_ASSERT cond = (if cond then Inr () else Inl AssertionFailed)"

text \<open>
  The owner's \<open>ResourceHandle\<close>: \<open>client\<close> tells whether \<open>client()\<close> is non-null.
\<close>

record ResourceHandle =
  client :: bool

text \<open>
  Modelled from the spec: \<open>WebResponse\<close> is declared in a file that is not among the
  sources. A response carries its header fields, its mime type, its expected size and the
  URL it names.
\<close>

record WebResponse =
  headerFields :: headers
  mimeType :: string
  expectedSize :: int
  responseUrl :: string

text \<open>
  Modelled from the spec: \<open>WebResponse::getHeader\<close> is not among the sources; it looks the
  name up among the header fields of the response.
\<close>

definition getHeader :: "WebResponse \<Rightarrow> string \<Rightarrow> string option" where
  "getHeader r name = map_of (headerFields r) name"

text \<open>
  Modelled from the spec: \<open>WebResponse::getMimeType\<close> is not among the sources; it gives the
  mime type of the response.
\<close>

definition getMimeType :: "WebResponse \<Rightarrow> string" where
  "getMimeType r = mimeType r"

text \<open>
  Modelled from the spec: \<open>WebResponse::getExpectedSize\<close> is not among the sources; it gives
  the expected size of the response.
\<close>

definition getExpectedSize :: "WebResponse \<Rightarrow> int" where
  "getExpectedSize r = expectedSize r"

text \<open>
  Modelled from the spec: \<open>WebResponse::createKurl\<close> is not among the sources; it gives the URL
  that the response names.
\<close>

definition createKurl :: "WebResponse \<Rightarrow> string" where
  "createKurl r = responseUrl r"

text \<open>
  Modelled from the spec: \<open>WebRequest\<close> is declared in a file that is not among the
  sources. The executor request carries the shaped request and, for a special scheme, the
  local stream it reads instead of the network.
\<close>

record WebRequest =
  request :: WebResourceRequest
  inputStream :: "int option"

text \<open>
  Modelled from the spec: \<open>WebRequest::getUrl\<close> is not among the sources; it gives the URL of
  the request.
\<close>

definition getUrl :: "WebRequest \<Rightarrow> string" where
  "getUrl rq = m_url (request rq)"

text \<open>
  Modelled from the spec: \<open>WebRequest::getUserAgent\<close> is not among the sources; it gives the
  user agent of the request.
\<close>

definition getUserAgent :: "WebRequest \<Rightarrow> string" where
  "getUserAgent rq = m_userAgent (request rq)"

record AuthChallengeInfo =
  host_and_port :: string
  realm :: string

text \<open>The methods of the executor request that the bridge posts to the IO thread.\<close>

datatype io_task =
    Req_appendBytesToUpload string
  | Req_appendFileToUpload string
  | Req_start bool
  | Req_cancel
  | Req_setAuth string string
  | Req_cancelAuth
  | Req_followDeferredRedirect

text \<open>
  The calls the bridge makes on its owner: on the client of the resource handle and on
  the frame.
\<close>

datatype owner_call =
    client_didReceiveResponse WebResponse
  | client_didReceiveData string int
  | client_didFail WebResponse
  | client_willSendRequest string WebResponse
  | client_didFinishLoading
  | frame_didReceiveAuthenticationChallenge string string bool
  | frame_downloadStart string string string string int
  | frame_inputStreamForAndroidResource string

text \<open>
  What the owner may do to the request while one of these calls runs: call \<open>cancel()\<close> on
  the bridge, or detach the client from the handle (\<open>setClient(0)\<close>). In
  \<open>willSendRequest\<close> it may also give the request another URL (\<open>newUrl\<close>, \<open>None\<close>
  when it leaves the request alone).
\<close>

datatype owner_action = owner_cancel | owner_setClient0

record owner_reaction =
  newUrl :: "string option"
  actions :: "owner_action list"

text \<open>The callback tasks that the executor hands to \<open>maybeCallOnMainThread\<close>.\<close>

datatype callback =
    task_didReceiveResponse WebResponse
  | task_didReceiveData string int
  | task_didReceiveDataUrl string
  | task_didReceiveAndroidFileData string
  | task_didFail WebResponse
  | task_willSendRequest WebResponse
  | task_didFinishLoading
  | task_authRequired AuthChallengeInfo

record WebUrlLoaderClient =
  m_resourceHandle :: "ResourceHandle option"
  m_cancelling :: bool
  m_sync :: bool
  m_finished :: bool
  m_request :: "WebRequest option"
  m_response :: "WebResponse option"
  m_queue :: "callback list"

text \<open>
  The bridge together with what surrounds it. \<open>networkThread\<close> holds when the static
  thread exists and is running; \<open>startResults\<close> are the results of the coming calls of
  \<open>StartWithOptions\<close>; \<open>posted\<close> is the message loop of the IO thread, \<open>mainThread\<close>
  what \<open>callOnMainThread\<close> received, \<open>ownerCalls\<close> the calls made on the owner, each in
  order; \<open>ownerScript\<close> holds the owner's reactions to the coming calls.
\<close>

record world =
  bridge :: WebUrlLoaderClient
  networkThread :: bool
  startResults :: "bool list"
  posted :: "io_task list"
  mainThread :: "callback list"
  ownerCalls :: "owner_call list"
  ownerScript :: "owner_reaction list"

text \<open>
  \<open>ioThread()\<close> returns the running thread; otherwise it tries to start one and returns
  null when that fails. The first component tells whether the result is non-null. With no
  start result left, the start fails.
\<close>

definition ioThread :: "world \<Rightarrow> bool \<times> world" where
  "ioThread w =
     (if networkThread w then (True, w)
      else case startResults w of
             [] \<Rightarrow> (False, w)
           | started # rest \<Rightarrow> (started, w\<lparr>networkThread := started, startResults := rest\<rparr>))"

definition PostTask :: "io_task \<Rightarrow> world \<Rightarrow> world" where
  "PostTask t w = w\<lparr>posted := posted w @ [t]\<rparr>"

text \<open>
  \<open>NewRunnableMethod(m_request.get(), method, ...)\<close> belongs to the task library: the
  task it builds retains its callee, so building it for a null \<open>m_request\<close> dereferences
  null. \<open>postMethod\<close> is
  \<open>message_loop()->PostTask(FROM_HERE, NewRunnableMethod(m_request.get(), ...))\<close>.
\<close>

definition NewRunnableMethod :: "WebRequest option \<Rightarrow> io_task \<Rightarrow> error + io_task" where
  "NewRunnableMethod callee method =
     (case callee of None \<Rightarrow> Inl NullDereference | Some rq \<Rightarrow> Inr method)"

definition postMethod :: "io_task \<Rightarrow> world \<Rightarrow> error + world" where
  "postMethod method w =
     (case NewRunnableMethod (m_request (bridge w)) method of
        Inl e \<Rightarrow> Inl e
      | Inr task \<Rightarrow> Inr (PostTask task w))"

definition isActive :: "WebUrlLoaderClient \<Rightarrow> error + bool" where
  "isActive b =
     (if m_cancelling b then Inr False
      else case m_resourceHandle b of
             None \<Rightarrow> Inl NullDereference
           | Some h \<Rightarrow> if \<not> client h then Inr False else Inr True)"

definition cancel :: "world \<Rightarrow> error + world" where
  "cancel w =
     (let w1 = w\<lparr>bridge := (bridge w)\<lparr>m_cancelling := True\<rparr>\<rparr>
      in case ioThread w1 of
           (True, w2) \<Rightarrow> postMethod Req_cancel w2
         | (False, w2) \<Rightarrow> Inr w2)"

definition setAuth :: "string \<Rightarrow> string \<Rightarrow> world \<Rightarrow> error + world" where
  "setAuth username password w =
     (case ioThread w of
        (False, w1) \<Rightarrow> Inr w1
      | (True, w1) \<Rightarrow> postMethod (Req_setAuth username password) w1)"

definition cancelAuth :: "world \<Rightarrow> error + world" where
  "cancelAuth w =
     (case ioThread w of
        (False, w1) \<Rightarrow> Inr w1
      | (True, w1) \<Rightarrow> postMethod Req_cancelAuth w1)"

definition finish :: "WebUrlLoaderClient \<Rightarrow> WebUrlLoaderClient" where
  "finish b =
     (let b1 = b\<lparr>m_finished := True\<rparr>;
          b2 = (if \<not> m_sync b1 then b1\<lparr>m_resourceHandle := None\<rparr> else b1)
      in b2\<lparr>m_request := None\<rparr>)"

text \<open>
  A call on the owner: it is recorded, and the owner's reaction to it takes place, one
  action after the other. A \<open>cancel()\<close> among them can end the run.
\<close>

definition ownerAct :: "owner_action \<Rightarrow> world \<Rightarrow> error + world" where
  "ownerAct a w =
     (case a of
        owner_cancel \<Rightarrow> cancel w
      | owner_setClient0 \<Rightarrow>
          Inr (w\<lparr>bridge := (bridge w)\<lparr>m_resourceHandle :=
                 map_option (\<lambda>h. h\<lparr>client := False\<rparr>) (m_resourceHandle (bridge w))\<rparr>\<rparr>))"

fun ownerActs :: "owner_action list \<Rightarrow> world \<Rightarrow> error + world" where
  "ownerActs [] w = Inr w"
| "ownerActs (a # as) w =
     (case ownerAct a w of
        Inl e \<Rightarrow> Inl e
      | Inr w1 \<Rightarrow> ownerActs as w1)"

definition callOwner :: "owner_call \<Rightarrow> world \<Rightarrow> error + owner_reaction \<times> world" where
  "callOwner c w =
     (case ownerScript w of
        [] \<Rightarrow> Inr (\<lparr>newUrl = None, actions = []\<rparr>, w\<lparr>ownerCalls := ownerCalls w @ [c]\<rparr>)
      | r # rest \<Rightarrow>
          (case ownerActs (actions r)
                  (w\<lparr>ownerCalls := ownerCalls w @ [c], ownerScript := rest\<rparr>) of
             Inl e \<Rightarrow> Inl e
           | Inr w1 \<Rightarrow> Inr (r, w1)))"

text \<open>The world after a call on the owner, when the reaction itself is of no interest.\<close>

definition afterOwner :: "owner_call \<Rightarrow> world \<Rightarrow> error + world" where
  "afterOwner c w = map_sum id snd (callOwner c w)"

subsection \<open>Response methods\<close>

definition didReceiveResponse :: "WebResponse \<Rightarrow> world \<Rightarrow> error + world" where
  "didReceiveResponse webResponse w =
     (case isActive (bridge w) of
        Inl e \<Rightarrow> Inl e
      | Inr False \<Rightarrow> Inr w
      | Inr True \<Rightarrow>
          (let w1 = w\<lparr>bridge := (bridge w)\<lparr>m_response := Some webResponse\<rparr>\<rparr>
           in afterOwner (client_didReceiveResponse webResponse) w1))"

definition didReceiveData :: "string \<Rightarrow> int \<Rightarrow> world \<Rightarrow> error + world" where
  "didReceiveData buf len w =
     (case isActive (bridge w) of
        Inl e \<Rightarrow> Inl e
      | Inr False \<Rightarrow> Inr w
      | Inr True \<Rightarrow>
          (case m_resourceHandle (bridge w) of
             None \<Rightarrow> Inr w
           | Some h \<Rightarrow>
               if client h then afterOwner (client_didReceiveData buf len) w
               else Inr w))"

definition didReceiveDataUrl :: "string \<Rightarrow> world \<Rightarrow> error + world" where
  "didReceiveDataUrl str w =
     (case isActive (bridge w) of
        Inl e \<Rightarrow> Inl e
      | Inr False \<Rightarrow> Inr w
      | Inr True \<Rightarrow> afterOwner (client_didReceiveData str (int (length str))) w)"

definition didReceiveAndroidFileData :: "string \<Rightarrow> world \<Rightarrow> error + world" where
  "didReceiveAndroidFileData vec w =
     (case isActive (bridge w) of
        Inl e \<Rightarrow> Inl e
      | Inr False \<Rightarrow> Inr w
      | Inr True \<Rightarrow> afterOwner (client_didReceiveData vec (int (length vec))) w)"

definition didFail :: "WebResponse \<Rightarrow> world \<Rightarrow> error + world" where
  "didFail webResponse w =
     (case isActive (bridge w) of
        Inl e \<Rightarrow> Inl e
      | Inr active \<Rightarrow>
          (case (if active then afterOwner (client_didFail webResponse) w else Inr w) of
             Inl e \<Rightarrow> Inl e
           | Inr w1 \<Rightarrow> Inr (w1\<lparr>bridge := finish (bridge w1)\<rparr>)))"

definition willSendRequest :: "WebResponse \<Rightarrow> world \<Rightarrow> error + world" where
  "willSendRequest webResponse w =
     (case isActive (bridge w) of
        Inl e \<Rightarrow> Inl e
      | Inr False \<Rightarrow> Inr w
      | Inr True \<Rightarrow>
          (let kurl = createKurl webResponse
           in case callOwner (client_willSendRequest kurl webResponse) w of
                Inl e \<Rightarrow> Inl e
              | Inr (reaction, w1) \<Rightarrow>
                  (let resourceRequest_url =
                         (case newUrl reaction of None \<Rightarrow> kurl | Some u \<Rightarrow> u)
                   in case isActive (bridge w1) of
                        Inl e \<Rightarrow> Inl e
                      | Inr False \<Rightarrow> Inr w1
                      | Inr True \<Rightarrow>
                          if kurl = resourceRequest_url then
                            (case ioThread w1 of
                               (False, w2) \<Rightarrow> Inl NullDereference
                             | (True, w2) \<Rightarrow> postMethod Req_followDeferredRedirect w2)
                          else cancel w1)))"

definition didFinishLoading :: "world \<Rightarrow> error + world" where
  "didFinishLoading w =
     (case isActive (bridge w) of
        Inl e \<Rightarrow> Inl e
      | Inr active \<Rightarrow>
          (case (if active then afterOwner client_didFinishLoading w else Inr w) of
             Inl e \<Rightarrow> Inl e
           | Inr w1 \<Rightarrow> Inr (w1\<lparr>bridge := finish (bridge w1)\<rparr>)))"

definition authRequired :: "AuthChallengeInfo \<Rightarrow> world \<Rightarrow> error + world" where
  "authRequired authChallengeInfo w =
     (case isActive (bridge w) of
        Inl e \<Rightarrow> Inl e
      | Inr False \<Rightarrow> Inr w
      | Inr True \<Rightarrow>
          (let host = host_and_port authChallengeInfo;
               realmStr = realm authChallengeInfo;
               useCachedCredentials = False
           in afterOwner
                (frame_didReceiveAuthenticationChallenge host realmStr useCachedCredentials) w))"

text \<open>Running a callback task calls the response method it wraps.\<close>

fun Run :: "callback \<Rightarrow> world \<Rightarrow> error + world" where
  "Run (task_didReceiveResponse r) w = didReceiveResponse r w"
| "Run (task_didReceiveData buf len) w = didReceiveData buf len w"
| "Run (task_didReceiveDataUrl str) w = didReceiveDataUrl str w"
| "Run (task_didReceiveAndroidFileData vec) w = didReceiveAndroidFileData vec w"
| "Run (task_didFail r) w = didFail r w"
| "Run (task_willSendRequest r) w = willSendRequest r w"
| "Run task_didFinishLoading w = didFinishLoading w"
| "Run (task_authRequired info) w = authRequired info w"

subsection \<open>Download\<close>

definition downloadFile :: "world \<Rightarrow> error + world" where
  "downloadFile w =
     (case m_response (bridge w) of
        Some r \<Rightarrow>
          (let contentDisposition =
                 (case getHeader r ''content-disposition'' of None \<Rightarrow> [] | Some v \<Rightarrow> v)
           in case m_request (bridge w) of
                None \<Rightarrow> Inl NullDereference
              | Some rq \<Rightarrow>
                  afterOwner
                    (frame_downloadStart (getUrl rq) (getUserAgent rq) contentDisposition
                       (getMimeType r) (getExpectedSize r)) w)
      | None \<Rightarrow>
          (case m_request (bridge w) of
             None \<Rightarrow> Inl NullDereference
           | Some rq \<Rightarrow> CRASH))"

subsection \<open>Construction\<close>

text \<open>
  The loop over the elements of the body. Each element that is kept asks for the IO
  thread again; without a thread nothing is posted for it.
\<close>

fun appendUploads :: "FormDataElement list \<Rightarrow> world \<Rightarrow> error + world" where
  "appendUploads [] w = Inr w"
| "appendUploads (data m_data # elements) w =
     (if m_data \<noteq> [] then
        (case ioThread w of
           (True, w1) \<Rightarrow>
             (case postMethod (Req_appendBytesToUpload m_data) w1 of
                Inl e \<Rightarrow> Inl e
              | Inr w2 \<Rightarrow> appendUploads elements w2)
         | (False, w1) \<Rightarrow> appendUploads elements w1)
      else appendUploads elements w)"
| "appendUploads (encodedFile m_filename # elements) w =
     (let filename = fromCString m_filename
      in if length filename > 0 then
           (case ioThread w of
              (True, w1) \<Rightarrow>
                (case postMethod (Req_appendFileToUpload filename) w1 of
                   Inl e \<Rightarrow> Inl e
                 | Inr w2 \<Rightarrow> appendUploads elements w2)
            | (False, w1) \<Rightarrow> appendUploads elements w1)
         else appendUploads elements w)"
| "appendUploads (encodedBlob blob # elements) w =
     (case LOG_ASSERT False of
        Inl e \<Rightarrow> Inl e
      | Inr u \<Rightarrow> appendUploads elements w)"

definition WebUrlLoaderClient_ctor :: "(string \<Rightarrow> int) \<Rightarrow> ResourceHandle option \<Rightarrow> ResourceRequest
    \<Rightarrow> world \<Rightarrow> error + world" where
  "WebUrlLoaderClient_ctor inputStreamForAndroidResource resourceHandle resourceRequest w =
     (let this = \<lparr> m_resourceHandle = resourceHandle, m_cancelling = False, m_sync = False,
                   m_finished = False, m_request = None, m_response = None, m_queue = [] \<rparr>;
          webResourceRequest = WebResourceRequest_ctor resourceRequest
      in if isAndroidUrl (m_url webResourceRequest) then
           (let stream = inputStreamForAndroidResource (m_url webResourceRequest);
                w1 = w\<lparr>ownerCalls := ownerCalls w @
                       [frame_inputStreamForAndroidResource (m_url webResourceRequest)]\<rparr>
            in Inr (w1\<lparr>bridge := this\<lparr>m_request :=
                        Some \<lparr>request = webResourceRequest, inputStream = Some stream\<rparr>\<rparr>\<rparr>))
         else
           (let w1 = w\<lparr>bridge := this\<lparr>m_request :=
                        Some \<lparr>request = webResourceRequest, inputStream = None\<rparr>\<rparr>\<rparr>
            in case httpBody resourceRequest of
                 None \<Rightarrow> Inr w1
               | Some elements \<Rightarrow>
                   if \<not> (m_method webResourceRequest = ''GET'' \<or> m_method webResourceRequest = ''HEAD'')
                   then appendUploads elements w1
                   else Inr w1))"

subsection \<open>Dispatch to the main thread and the synchronous loop\<close>

text \<open>
  In synchronous mode the task goes to the back of \<open>m_queue\<close> (the condition is
  signalled when the queue was empty); otherwise it is handed to \<open>callOnMainThread\<close>.
\<close>

definition maybeCallOnMainThread :: "callback \<Rightarrow> world \<Rightarrow> world" where
  "maybeCallOnMainThread task w =
     (if m_sync (bridge w) then w\<lparr>bridge := (bridge w)\<lparr>m_queue := m_queue (bridge w) @ [task]\<rparr>\<rparr>
      else w\<lparr>mainThread := mainThread w @ [task]\<rparr>)"

text \<open>\<open>setQueue\<close> replaces the queue of the bridge; \<open>pop_front\<close> is \<open>setQueue\<close> of the tail.\<close>

definition setQueue :: "callback list \<Rightarrow> world \<Rightarrow> world" where
  "setQueue q w = w\<lparr>bridge := (bridge w)\<lparr>m_queue := q\<rparr>\<rparr>"

text \<open>
  No response method reads or writes the queue: running a task on a world with another
  queue gives the same result with that queue. The inner loop terminates for this reason.
\<close>

lemma setQueue_same [simp]: "setQueue (m_queue (bridge w)) w = w"
  by (simp add: setQueue_def)

lemma setQueue_setQueue [simp]: "setQueue q (setQueue q' w) = setQueue q w"
  by (simp add: setQueue_def)

lemma m_queue_setQueue [simp]: "m_queue (bridge (setQueue q w)) = q"
  by (simp add: setQueue_def)

lemma ioThread_setQueue:
  "ioThread (setQueue q w) = (fst (ioThread w), setQueue q (snd (ioThread w)))"
  by (simp add: ioThread_def setQueue_def split: list.splits)

lemma postMethod_setQueue:
  "postMethod t (setQueue q w) = map_sum id (setQueue q) (postMethod t w)"
  by (simp add: postMethod_def NewRunnableMethod_def PostTask_def setQueue_def
        split: option.splits)

lemma cancel_setQueue: "cancel (setQueue q w) = map_sum id (setQueue q) (cancel w)"
proof -
  have "(setQueue q w)\<lparr>bridge := (bridge (setQueue q w))\<lparr>m_cancelling := True\<rparr>\<rparr>
        = setQueue q (w\<lparr>bridge := (bridge w)\<lparr>m_cancelling := True\<rparr>\<rparr>)"
    by (simp add: setQueue_def)
  then show ?thesis
    by (simp add: cancel_def Let_def ioThread_setQueue postMethod_setQueue
          split: prod.splits bool.splits)
qed

lemma ownerAct_setQueue: "ownerAct a (setQueue q w) = map_sum id (setQueue q) (ownerAct a w)"
proof (cases a)
  case owner_cancel
  then show ?thesis by (simp add: ownerAct_def cancel_setQueue)
next
  case owner_setClient0
  then show ?thesis by (simp add: ownerAct_def setQueue_def)
qed

lemma ownerActs_setQueue:
  "ownerActs as (setQueue q w) = map_sum id (setQueue q) (ownerActs as w)"
proof (induction as arbitrary: w)
  case Nil
  show ?case by simp
next
  case (Cons a as)
  show ?case
    by (cases "ownerAct a w") (simp_all add: ownerAct_setQueue Cons.IH)
qed

lemma setQueue_fields:
  "networkThread (setQueue q w) = networkThread w"
  "startResults (setQueue q w) = startResults w"
  "posted (setQueue q w) = posted w"
  "mainThread (setQueue q w) = mainThread w"
  "ownerCalls (setQueue q w) = ownerCalls w"
  "ownerScript (setQueue q w) = ownerScript w"
  by (simp_all add: setQueue_def)

lemma setQueue_ownerCalls:
  "(setQueue q w)\<lparr>ownerCalls := cs\<rparr> = setQueue q (w\<lparr>ownerCalls := cs\<rparr>)"
  "(setQueue q w)\<lparr>ownerScript := sc\<rparr> = setQueue q (w\<lparr>ownerScript := sc\<rparr>)"
  by (simp_all add: setQueue_def)

lemma callOwner_setQueue:
  "callOwner c (setQueue q w)
     = map_sum id (\<lambda>p. (fst p, setQueue q (snd p))) (callOwner c w)"
proof (cases "ownerScript w")
  case Nil
  then show ?thesis
    by (simp add: callOwner_def setQueue_fields setQueue_ownerCalls)
next
  case (Cons r rest)
  show ?thesis
    by (cases "ownerActs (actions r) (w\<lparr>ownerCalls := ownerCalls w @ [c], ownerScript := rest\<rparr>)")
       (simp_all add: callOwner_def Cons setQueue_fields setQueue_ownerCalls ownerActs_setQueue)
qed

lemma afterOwner_setQueue:
  "afterOwner c (setQueue q w) = map_sum id (setQueue q) (afterOwner c w)"
  by (cases "callOwner c w") (simp_all add: afterOwner_def callOwner_setQueue)

lemma isActive_queue_update: "isActive (b\<lparr>m_queue := q\<rparr>) = isActive b"
  by (simp add: isActive_def)

lemma isActive_setQueue: "isActive (bridge (setQueue q w)) = isActive (bridge w)"
  by (simp add: isActive_def setQueue_def)

lemma bridge_setQueue: "bridge (setQueue q w) = (bridge w)\<lparr>m_queue := q\<rparr>"
  by (simp add: setQueue_def)

lemma didReceiveResponse_setQueue:
  "didReceiveResponse r (setQueue q w) = map_sum id (setQueue q) (didReceiveResponse r w)"
proof -
  have "setQueue q w\<lparr>bridge := (bridge (setQueue q w))\<lparr>m_response := Some r\<rparr>\<rparr>
        = setQueue q (w\<lparr>bridge := (bridge w)\<lparr>m_response := Some r\<rparr>\<rparr>)"
    by (simp add: setQueue_def)
  then show ?thesis
    by (simp add: didReceiveResponse_def isActive_setQueue afterOwner_setQueue Let_def
          split: sum.splits bool.splits)
qed

lemma didReceiveData_setQueue:
  "didReceiveData buf len (setQueue q w) = map_sum id (setQueue q) (didReceiveData buf len w)"
  by (simp add: didReceiveData_def isActive_queue_update afterOwner_setQueue bridge_setQueue
        split: sum.splits bool.splits option.splits)

lemma didReceiveDataUrl_setQueue:
  "didReceiveDataUrl str (setQueue q w) = map_sum id (setQueue q) (didReceiveDataUrl str w)"
  by (simp add: didReceiveDataUrl_def isActive_setQueue afterOwner_setQueue
        split: sum.splits bool.splits)

lemma didReceiveAndroidFileData_setQueue:
  "didReceiveAndroidFileData vec (setQueue q w) = map_sum id (setQueue q) (didReceiveAndroidFileData vec w)"
  by (simp add: didReceiveAndroidFileData_def isActive_setQueue afterOwner_setQueue
        split: sum.splits bool.splits)

lemma finish_world_setQueue:
  "(setQueue q w)\<lparr>bridge := finish (bridge (setQueue q w))\<rparr> = setQueue q (w\<lparr>bridge := finish (bridge w)\<rparr>)"
  by (simp add: finish_def setQueue_def Let_def)

lemma didFail_setQueue:
  "didFail r (setQueue q w) = map_sum id (setQueue q) (didFail r w)"
proof (cases "isActive (bridge w)")
  case (Inl e)
  then show ?thesis by (simp add: didFail_def isActive_setQueue)
next
  case (Inr active)
  show ?thesis
  proof (cases active)
    case True
    with Inr show ?thesis
      by (cases "afterOwner (client_didFail r) w")
         (simp_all add: didFail_def isActive_setQueue afterOwner_setQueue finish_world_setQueue)
  next
    case False
    with Inr show ?thesis
      by (simp add: didFail_def isActive_setQueue finish_world_setQueue)
  qed
qed

lemma didFinishLoading_setQueue:
  "didFinishLoading (setQueue q w) = map_sum id (setQueue q) (didFinishLoading w)"
proof (cases "isActive (bridge w)")
  case (Inl e)
  then show ?thesis by (simp add: didFinishLoading_def isActive_setQueue)
next
  case (Inr active)
  show ?thesis
  proof (cases active)
    case True
    with Inr show ?thesis
      by (cases "afterOwner client_didFinishLoading w")
         (simp_all add: didFinishLoading_def isActive_setQueue afterOwner_setQueue
            finish_world_setQueue)
  next
    case False
    with Inr show ?thesis
      by (simp add: didFinishLoading_def isActive_setQueue finish_world_setQueue)
  qed
qed

lemma authRequired_setQueue:
  "authRequired info (setQueue q w) = map_sum id (setQueue q) (authRequired info w)"
  by (simp add: authRequired_def isActive_setQueue afterOwner_setQueue Let_def
        split: sum.splits bool.splits)

lemma willSendRequest_setQueue:
  "willSendRequest r (setQueue q w) = map_sum id (setQueue q) (willSendRequest r w)"
proof (cases "callOwner (client_willSendRequest (createKurl r) r) w")
  case (Inl e)
  then show ?thesis
    by (simp add: willSendRequest_def isActive_setQueue callOwner_setQueue Let_def
          split: sum.splits bool.splits)
next
  case (Inr p)
  obtain reaction w1 where p: "p = (reaction, w1)" by (cases p)
  with Inr show ?thesis
    by (simp add: willSendRequest_def isActive_setQueue callOwner_setQueue ioThread_setQueue
          postMethod_setQueue cancel_setQueue Let_def case_prod_beta
          split: sum.splits bool.splits)
qed

lemma Run_setQueue: "Run task (setQueue q w) = map_sum id (setQueue q) (Run task w)"
  by (cases task)
     (simp_all add: didReceiveResponse_setQueue didReceiveData_setQueue didReceiveDataUrl_setQueue
        didReceiveAndroidFileData_setQueue didFail_setQueue didFinishLoading_setQueue
        authRequired_setQueue willSendRequest_setQueue)

lemma Run_queue:
  assumes "Run task w = Inr w'"
  shows "m_queue (bridge w') = m_queue (bridge w)"
proof -
  from Run_setQueue [of task "m_queue (bridge w)" w] assms
  have "w' = setQueue (m_queue (bridge w)) w'" by simp
  then have "m_queue (bridge w') = m_queue (bridge (setQueue (m_queue (bridge w)) w'))" by simp
  then show ?thesis by simp
qed

text \<open>
  The inner loop of \<open>start\<close>: while the queue is not empty, take the front task, pop
  it and run it.
\<close>

function runQueue :: "world \<Rightarrow> error + world" where
  "runQueue w =
     (case m_queue (bridge w) of
        [] \<Rightarrow> Inr w
      | task # rest \<Rightarrow>
          (case Run task (setQueue rest w) of
             Inl e \<Rightarrow> Inl e
           | Inr w' \<Rightarrow> runQueue w'))"
  by pat_completeness auto
termination
proof (relation "measure (\<lambda>w. length (m_queue (bridge w)))")
  show "wf (measure (\<lambda>w. length (m_queue (bridge w))))" by simp
next
  fix w :: world and task rest w'
  assume q: "m_queue (bridge w) = task # rest" and r: "Run task (setQueue rest w) = Inr w'"
  from Run_queue [OF r] have "m_queue (bridge w') = rest" by simp
  with q show "(w', w) \<in> measure (\<lambda>w. length (m_queue (bridge w)))" by simp
qed

declare runQueue.simps [simp del]

lemma runQueue_empties:
  "runQueue w = Inr w' \<Longrightarrow> m_queue (bridge w') = []"
proof (induction w rule: runQueue.induct)
  case (1 w)
  show ?case
  proof (cases "m_queue (bridge w)")
    case Nil
    with "1.prems" show ?thesis by (simp add: runQueue.simps [of w])
  next
    case (Cons task rest)
    with "1.prems" obtain w1 where r: "Run task (setQueue rest w) = Inr w1"
      and q: "runQueue w1 = Inr w'"
      by (auto simp: runQueue.simps [of w] split: sum.splits)
    from "1.IH" [OF Cons r q] show ?thesis .
  qed
qed

text \<open>
  The outer loop of \<open>start\<close>. The lock is held except inside \<open>Wait()\<close>, so the IO
  thread enqueues only there: \<open>pending\<close> lists, for each coming \<open>Wait()\<close>, the tasks
  that the IO thread passes to \<open>maybeCallOnMainThread\<close> before the wait returns (none for
  a wake-up without work). With nothing left to come the wait never returns, and the
  result is \<open>None\<close>. The loop returns the world and the part of \<open>pending\<close> that has
  not happened yet.
\<close>

function syncLoop :: "callback list list \<Rightarrow> world \<Rightarrow> (error + world \<times> callback list list) option" where
  "syncLoop pending w =
     (if m_finished (bridge w) then Some (Inr (w, pending))
      else case runQueue w of
             Inl e \<Rightarrow> Some (Inl e)
           | Inr w1 \<Rightarrow>
               if m_queue (bridge w1) = [] \<and> \<not> m_finished (bridge w1) then
                 (case pending of
                    [] \<Rightarrow> None
                  | enqueued # pending' \<Rightarrow> syncLoop pending' (fold maybeCallOnMainThread enqueued w1))
               else syncLoop pending w1)"
  by pat_completeness auto
termination
proof (relation "measure (\<lambda>(pending, w). 2 * length pending + (if m_finished (bridge w) then 0 else 1))")
  show "wf (measure (\<lambda>(pending, w). 2 * length pending + (if m_finished (bridge w) then 0 else 1)))"
    by simp
next
  fix pending :: "callback list list" and w w1 :: world and enqueued pending'
  assume "pending = enqueued # pending'"
  then show "((pending', fold maybeCallOnMainThread enqueued w1), pending, w)
      \<in> measure (\<lambda>(pending, w). 2 * length pending + (if m_finished (bridge w) then 0 else 1))"
    by simp
next
  fix pending :: "callback list list" and w w1 :: world
  assume nf: "\<not> m_finished (bridge w)" and r: "runQueue w = Inr w1"
    and c: "\<not> (m_queue (bridge w1) = [] \<and> \<not> m_finished (bridge w1))"
  from runQueue_empties [OF r] c have "m_finished (bridge w1)" by simp
  with nf show "((pending, w1), pending, w)
      \<in> measure (\<lambda>(pending, w). 2 * length pending + (if m_finished (bridge w) then 0 else 1))"
    by simp
qed

declare syncLoop.simps [simp del]

definition start :: "bool \<Rightarrow> bool \<Rightarrow> callback list list \<Rightarrow> world
    \<Rightarrow> (error + bool \<times> world \<times> callback list list) option" where
  "start sync isPrivateBrowsing pending w =
     (case ioThread w of
        (False, w0) \<Rightarrow> Some (Inr (False, w0, pending))
      | (True, w0) \<Rightarrow>
          (let w1 = w0\<lparr>bridge := (bridge w0)\<lparr>m_sync := sync\<rparr>\<rparr>
           in if m_sync (bridge w1) then
                (case postMethod (Req_start isPrivateBrowsing) w1 of
                   Inl e \<Rightarrow> Some (Inl e)
                 | Inr w2 \<Rightarrow>
                     (case syncLoop pending w2 of
                        None \<Rightarrow> None
                      | Some (Inl e) \<Rightarrow> Some (Inl e)
                      | Some (Inr (w3, pending')) \<Rightarrow>
                          Some (Inr (True, w3\<lparr>bridge := (bridge w3)\<lparr>m_resourceHandle := None\<rparr>\<rparr>,
                                     pending'))))
              else
                (case postMethod (Req_start isPrivateBrowsing) w1 of
                   Inl e \<Rightarrow> Some (Inl e)
                 | Inr w2 \<Rightarrow> Some (Inr (True, w2, pending)))))"

section \<open>The specification's reading of the bridge\<close>

text \<open>
  The liveness predicate as the specification words it: the lifecycle state is neither
  cancelling nor finished, and the handle still has an attached client.
\<close>

definition isActive_spec :: "WebUrlLoaderClient \<Rightarrow> bool" where
  "isActive_spec b \<longleftrightarrow>
     \<not> m_cancelling b \<and> \<not> m_finished b
   \<and> (case m_resourceHandle b of None \<Rightarrow> False | Some h \<Rightarrow> client h)"

text \<open>
  The header-shaping contract as the specification words it: \<open>referer\<close> and
  \<open>user-agent\<close> are left out, and \<open>cache-control: max-age=0\<close> is left out when a load
  directive (\<open>noCacheDirective\<close>) already expresses no-cache semantics.
\<close>

definition shapeHeaders_spec :: "bool \<Rightarrow> headers \<Rightarrow> headers" where
  "shapeHeaders_spec noCacheDirective hs =
     filter (\<lambda>(n, v). \<not> (map ToLowerASCII n = ''referer'' \<or> map ToLowerASCII n = ''user-agent''
                 \<or> (noCacheDirective \<and> map ToLowerASCII n = ''cache-control''
                      \<and> map ToLowerASCII v = ''max-age=0''))) hs"

text \<open>
  The upload tasks that the specification asks for: one per raw-data part that is not
  empty and one per file part whose name (as the C string the code reads) is not empty, in
  the order of the parts. A part is supported when it is raw data or a file.
\<close>

fun supported :: "FormDataElement \<Rightarrow> bool" where
  "supported (data d) = True"
| "supported (encodedFile f) = True"
| "supported (encodedBlob b) = False"

fun uploadTasks :: "FormDataElement list \<Rightarrow> io_task list" where
  "uploadTasks [] = []"
| "uploadTasks (data d # elements) =
     (if d = [] then uploadTasks elements else Req_appendBytesToUpload d # uploadTasks elements)"
| "uploadTasks (encodedFile f # elements) =
     (if fromCString f = [] then uploadTasks elements
      else Req_appendFileToUpload (fromCString f) # uploadTasks elements)"
| "uploadTasks (encodedBlob b # elements) = uploadTasks elements"

text \<open>The bridge as the initialiser list and the assignment of \<open>m_request\<close> leave it.\<close>

definition freshBridge :: "ResourceHandle option \<Rightarrow> WebRequest \<Rightarrow> WebUrlLoaderClient" where
  "freshBridge h rq =
     \<lparr> m_resourceHandle = h, m_cancelling = False, m_sync = False, m_finished = False,
       m_request = Some rq, m_response = None, m_queue = [] \<rparr>"

text \<open>The two callbacks that end a request.\<close>

fun finishing :: "callback \<Rightarrow> bool" where
  "finishing (task_didFail r) = True"
| "finishing task_didFinishLoading = True"
| "finishing task = False"

text \<open>Running callback tasks one after the other, in the order of the list.\<close>

fun runTasks :: "callback list \<Rightarrow> world \<Rightarrow> error + world" where
  "runTasks [] w = Inr w"
| "runTasks (task # tasks) w =
     (case Run task w of
        Inl e \<Rightarrow> Inl e
      | Inr w' \<Rightarrow> runTasks tasks w')"

section \<open>Example inputs\<close>

definition exampleResponse :: WebResponse where
  "exampleResponse =
     \<lparr> headerFields = [(''content-disposition'', ''attachment''), (''content-type'', ''text/plain'')],
       mimeType = ''text/plain'', expectedSize = 42, responseUrl = ''http://example.org/next'' \<rparr>"

definition exampleRequest :: ResourceRequest where
  "exampleRequest =
     \<lparr> httpHeaderFields = [(''Accept'', ''text/html''), (''Referer'', ''http://example.org/''),
                           (''Cache-Control'', ''max-age=0'')],
       httpMethod = ''POST'', httpReferrer = ''http://example.org/'', httpUserAgent = ''agent'',
       url = ''http://example.org/form'',
       httpBody = Some [data ''abc'', data [], encodedFile ''upload.txt'', encodedFile []] \<rparr>"

text \<open>
  The same request for a \<open>content:\<close> URL, the same request with a blob among its body
  parts, and an owner that has the stream 7 for every URL.
\<close>

definition contentRequest :: ResourceRequest where
  "contentRequest = exampleRequest\<lparr>url := ''content://foo''\<rparr>"

definition exampleStreams :: "string \<Rightarrow> int" where
  "exampleStreams u = 7"

definition blobRequest :: ResourceRequest where
  "blobRequest = exampleRequest\<lparr>httpBody := Some [data ''abc'', encodedBlob ''blob:1'', data ''def'']\<rparr>"

text \<open>A bridge as the constructor leaves it, for a request over the network.\<close>

definition exampleBridge :: WebUrlLoaderClient where
  "exampleBridge =
     \<lparr> m_resourceHandle = Some \<lparr>client = True\<rparr>, m_cancelling = False, m_sync = False,
       m_finished = False,
       m_request = Some \<lparr>request = WebResourceRequest_ctor exampleRequest, inputStream = None\<rparr>,
       m_response = None, m_queue = [] \<rparr>"

text \<open>A world whose IO thread runs, and one whose IO thread does not start.\<close>

definition runningWorld :: world where
  "runningWorld =
     \<lparr> bridge = exampleBridge, networkThread = True, startResults = [], posted = [],
       mainThread = [], ownerCalls = [], ownerScript = [] \<rparr>"

definition stoppedWorld :: world where
  "stoppedWorld =
     \<lparr> bridge = exampleBridge, networkThread = False, startResults = [False], posted = [],
       mainThread = [], ownerCalls = [], ownerScript = [] \<rparr>"

text \<open>
  The running world in synchronous mode; the same after \<open>didFinishLoading\<close>; the running
  world after \<open>cancel()\<close>; the running world, asynchronous and synchronous, after a
  failure.
\<close>

definition syncWorld :: world where
  "syncWorld = runningWorld\<lparr>bridge := exampleBridge\<lparr>m_sync := True\<rparr>\<rparr>"

definition finishedWorld :: world where
  "finishedWorld =
     syncWorld\<lparr>bridge := exampleBridge\<lparr>m_sync := True, m_finished := True, m_request := None\<rparr>,
               ownerCalls := [client_didFinishLoading]\<rparr>"

definition cancelledWorld :: world where
  "cancelledWorld =
     runningWorld\<lparr>bridge := exampleBridge\<lparr>m_cancelling := True\<rparr>, posted := [Req_cancel]\<rparr>"

definition failedWorld :: world where
  "failedWorld =
     runningWorld\<lparr>bridge := exampleBridge\<lparr>m_resourceHandle := None, m_finished := True,
                                           m_request := None\<rparr>,
                  ownerCalls := [client_didFail exampleResponse]\<rparr>"

definition failedSyncWorld :: world where
  "failedSyncWorld =
     syncWorld\<lparr>bridge := exampleBridge\<lparr>m_sync := True, m_finished := True, m_request := None\<rparr>,
               ownerCalls := [client_didFail exampleResponse]\<rparr>"



text \<open>
  The running world after a synchronous \<open>start\<close> during which the IO thread delivered
  a response, three bytes and the end of the load.
\<close>

definition syncDoneWorld :: world where
  "syncDoneWorld =
     runningWorld\<lparr>bridge := exampleBridge\<lparr>m_resourceHandle := None, m_sync := True,
                     m_finished := True, m_request := None, m_response := Some exampleResponse\<rparr>,
                  posted := [Req_start False],
                  ownerCalls := [client_didReceiveResponse exampleResponse,
                                 client_didReceiveData ''abc'' 3, client_didFinishLoading]\<rparr>"

text \<open>
  The synchronous world after a response; the same after the load has then finished; the
  synchronous world after \<open>cancel()\<close>; the synchronous world after a failure, with an
  owner that answers the next call with \<open>cancel()\<close>.
\<close>

definition respondedWorld :: world where
  "respondedWorld =
     syncWorld\<lparr>bridge := exampleBridge\<lparr>m_sync := True, m_response := Some exampleResponse\<rparr>,
               ownerCalls := [client_didReceiveResponse exampleResponse]\<rparr>"

definition respondedFinishedWorld :: world where
  "respondedFinishedWorld =
     syncWorld\<lparr>bridge := exampleBridge\<lparr>m_sync := True, m_finished := True, m_request := None,
                                        m_response := Some exampleResponse\<rparr>,
               ownerCalls := [client_didReceiveResponse exampleResponse, client_didFinishLoading]\<rparr>"

definition cancelledSyncWorld :: world where
  "cancelledSyncWorld =
     syncWorld\<lparr>bridge := exampleBridge\<lparr>m_sync := True, m_cancelling := True\<rparr>,
               posted := [Req_cancel]\<rparr>"

definition cancellingOwnerWorld :: world where
  "cancellingOwnerWorld =
     failedSyncWorld\<lparr>ownerScript := [\<lparr>newUrl = None, actions = [owner_cancel]\<rparr>]\<rparr>"

lemmas op_defs = isActive_def cancel_def ioThread_def PostTask_def finish_def callOwner_def
  postMethod_def NewRunnableMethod_def afterOwner_def
  ownerAct_def didReceiveResponse_def didReceiveData_def didReceiveDataUrl_def
  didReceiveAndroidFileData_def didFail_def willSendRequest_def didFinishLoading_def
  authRequired_def downloadFile_def setAuth_def cancelAuth_def maybeCallOnMainThread_def
  CRASH_def LOG_ASSERT_def Let_def

section \<open>What a call on the owner can change\<close>

text \<open>
  While the owner reacts to a call it can set the cancelling flag and detach the client,
  and \<open>cancel()\<close> may post to the IO thread; everything else stays as it was. The
  reaction ends the run only through a \<open>cancel()\<close> on a bridge that has released its
  executor request.
\<close>

definition reacted :: "world \<Rightarrow> world \<Rightarrow> bool" where
  "reacted w w' \<longleftrightarrow>
     m_sync (bridge w') = m_sync (bridge w)
   \<and> m_finished (bridge w') = m_finished (bridge w)
   \<and> m_request (bridge w') = m_request (bridge w)
   \<and> m_response (bridge w') = m_response (bridge w)
   \<and> m_queue (bridge w') = m_queue (bridge w)
   \<and> (m_cancelling (bridge w) \<longrightarrow> m_cancelling (bridge w'))
   \<and> (m_resourceHandle (bridge w') = None \<longleftrightarrow> m_resourceHandle (bridge w) = None)
   \<and> ownerCalls w' = ownerCalls w
   \<and> mainThread w' = mainThread w
   \<and> (\<exists>more. posted w' = posted w @ more)
   \<and> (networkThread w \<longrightarrow> networkThread w')"

lemma reacted_refl: "reacted w w"
  by (simp add: reacted_def)

lemma reacted_trans: "reacted w w1 \<Longrightarrow> reacted w1 w2 \<Longrightarrow> reacted w w2"
  by (auto simp: reacted_def)

lemma reacted_ioThread: "reacted w (snd (ioThread w))"
  by (simp add: reacted_def ioThread_def split: list.splits)

lemma reacted_PostTask: "reacted w (PostTask t w)"
  by (simp add: reacted_def PostTask_def)

lemma postMethod_Inr:
  "postMethod t w = Inr w' \<longleftrightarrow> m_request (bridge w) \<noteq> None \<and> w' = PostTask t w"
  by (auto simp: postMethod_def NewRunnableMethod_def split: option.splits)

lemma postMethod_Inl:
  "postMethod t w = Inl e \<longleftrightarrow> m_request (bridge w) = None \<and> e = NullDereference"
  by (auto simp: postMethod_def NewRunnableMethod_def split: option.splits)

lemma reacted_postMethod: "postMethod t w = Inr w' \<Longrightarrow> reacted w w'"
  by (simp add: postMethod_Inr reacted_PostTask)

lemma cancel_cases:
  "cancel w = Inr w' \<Longrightarrow>
     w' = snd (ioThread (w\<lparr>bridge := (bridge w)\<lparr>m_cancelling := True\<rparr>\<rparr>))
   \<or> w' = PostTask Req_cancel (snd (ioThread (w\<lparr>bridge := (bridge w)\<lparr>m_cancelling := True\<rparr>\<rparr>)))"
  by (auto simp: cancel_def Let_def postMethod_Inr split: prod.splits bool.splits)

lemma reacted_cancel: "cancel w = Inr w' \<Longrightarrow> reacted w w'"
proof -
  assume c: "cancel w = Inr w'"
  define w1 where "w1 = w\<lparr>bridge := (bridge w)\<lparr>m_cancelling := True\<rparr>\<rparr>"
  have r1: "reacted w w1" by (simp add: reacted_def w1_def)
  from reacted_trans [OF r1 reacted_ioThread] have r2: "reacted w (snd (ioThread w1))" .
  from reacted_trans [OF r2 reacted_PostTask]
  have r3: "reacted w (PostTask Req_cancel (snd (ioThread w1)))" .
  from cancel_cases [OF c] r2 r3 show ?thesis unfolding w1_def by blast
qed

lemma cancel_sets_flag: "cancel w = Inr w' \<Longrightarrow> m_cancelling (bridge w')"
proof -
  assume c: "cancel w = Inr w'"
  define w1 where "w1 = w\<lparr>bridge := (bridge w)\<lparr>m_cancelling := True\<rparr>\<rparr>"
  have "m_cancelling (bridge w1)" by (simp add: w1_def)
  with reacted_ioThread [of w1] have a: "m_cancelling (bridge (snd (ioThread w1)))"
    by (simp add: reacted_def)
  then have b: "m_cancelling (bridge (PostTask Req_cancel (snd (ioThread w1))))"
    by (simp add: PostTask_def)
  from cancel_cases [OF c] a b show ?thesis unfolding w1_def by blast
qed

lemma cancel_returns: "m_request (bridge w) \<noteq> None \<Longrightarrow> \<exists>w'. cancel w = Inr w'"
  by (auto simp: cancel_def Let_def ioThread_def postMethod_def NewRunnableMethod_def PostTask_def
        split: list.splits bool.splits option.splits)

lemma reacted_ownerAct: "ownerAct a w = Inr w' \<Longrightarrow> reacted w w'"
proof (cases a)
  case owner_cancel
  assume "ownerAct a w = Inr w'"
  with owner_cancel show ?thesis by (simp add: ownerAct_def reacted_cancel)
next
  case owner_setClient0
  assume "ownerAct a w = Inr w'"
  with owner_setClient0 show ?thesis by (auto simp: ownerAct_def reacted_def)
qed

lemma ownerAct_returns: "m_request (bridge w) \<noteq> None \<Longrightarrow> \<exists>w'. ownerAct a w = Inr w'"
  by (cases a) (simp_all add: ownerAct_def cancel_returns)

lemma reacted_ownerActs: "ownerActs as w = Inr w' \<Longrightarrow> reacted w w'"
proof (induction as arbitrary: w)
  case Nil
  then show ?case by (simp add: reacted_refl)
next
  case (Cons a as)
  then obtain w1 where a: "ownerAct a w = Inr w1" and r: "ownerActs as w1 = Inr w'"
    by (auto split: sum.splits)
  from reacted_trans [OF reacted_ownerAct [OF a] Cons.IH [OF r]] show ?case .
qed

lemma ownerActs_returns: "m_request (bridge w) \<noteq> None \<Longrightarrow> \<exists>w'. ownerActs as w = Inr w'"
proof (induction as arbitrary: w)
  case Nil
  show ?case by simp
next
  case (Cons a as)
  from ownerAct_returns [OF Cons.prems] obtain w1 where a: "ownerAct a w = Inr w1" ..
  from reacted_ownerAct [OF a] Cons.prems have "m_request (bridge w1) \<noteq> None"
    by (simp add: reacted_def)
  from Cons.IH [OF this] a show ?case by simp
qed

lemma reacted_callOwner:
  assumes "callOwner c w = Inr (r, w')"
  shows "reacted (w\<lparr>ownerCalls := ownerCalls w @ [c]\<rparr>) w'"
proof (cases "ownerScript w")
  case Nil
  with assms show ?thesis by (auto simp: callOwner_def reacted_refl)
next
  case (Cons r0 rest)
  have r1: "reacted (w\<lparr>ownerCalls := ownerCalls w @ [c]\<rparr>)
          (w\<lparr>ownerCalls := ownerCalls w @ [c], ownerScript := rest\<rparr>)"
    by (simp add: reacted_def)
  from assms Cons
  have "ownerActs (actions r0) (w\<lparr>ownerCalls := ownerCalls w @ [c], ownerScript := rest\<rparr>) = Inr w'"
    by (auto simp: callOwner_def split: sum.splits)
  from reacted_trans [OF r1 reacted_ownerActs [OF this]] show ?thesis .
qed

lemma callOwner_returns:
  assumes "m_request (bridge w) \<noteq> None"
  shows "\<exists>r w'. callOwner c w = Inr (r, w')"
proof (cases "ownerScript w")
  case Nil
  then show ?thesis by (simp add: callOwner_def)
next
  case (Cons r0 rest)
  have "m_request (bridge (w\<lparr>ownerCalls := ownerCalls w @ [c], ownerScript := rest\<rparr>)) \<noteq> None"
    using assms by simp
  from ownerActs_returns [OF this, of "actions r0"] Cons show ?thesis
    by (auto simp: callOwner_def)
qed

lemma callOwner_quiet:
  "ownerScript w = [] \<Longrightarrow>
   callOwner c w = Inr (\<lparr>newUrl = None, actions = []\<rparr>, w\<lparr>ownerCalls := ownerCalls w @ [c]\<rparr>)"
  by (simp add: callOwner_def)

lemma afterOwner_Inr:
  "afterOwner c w = Inr w' \<longleftrightarrow> (\<exists>r. callOwner c w = Inr (r, w'))"
  by (cases "callOwner c w") (auto simp: afterOwner_def)

lemma afterOwner_returns: "m_request (bridge w) \<noteq> None \<Longrightarrow> \<exists>w'. afterOwner c w = Inr w'"
  using callOwner_returns [of w c] by (auto simp: afterOwner_Inr)

lemma reacted_afterOwner:
  "afterOwner c w = Inr w' \<Longrightarrow> reacted (w\<lparr>ownerCalls := ownerCalls w @ [c]\<rparr>) w'"
  by (auto simp: afterOwner_Inr dest: reacted_callOwner)

lemma afterOwner_ownerCalls: "afterOwner c w = Inr w' \<Longrightarrow> ownerCalls w' = ownerCalls w @ [c]"
  using reacted_afterOwner [of c w w'] by (simp add: reacted_def)

lemma afterOwner_sync: "afterOwner c w = Inr w' \<Longrightarrow> m_sync (bridge w') = m_sync (bridge w)"
  using reacted_afterOwner [of c w w'] by (simp add: reacted_def)

lemma afterOwner_cancelling:
  "afterOwner c w = Inr w' \<Longrightarrow> m_cancelling (bridge w) \<Longrightarrow> m_cancelling (bridge w')"
  using reacted_afterOwner [of c w w'] by (simp add: reacted_def)

lemma afterOwner_handle:
  "afterOwner c w = Inr w' \<Longrightarrow>
   (m_resourceHandle (bridge w') = None) = (m_resourceHandle (bridge w) = None)"
  using reacted_afterOwner [of c w w'] by (simp add: reacted_def)

lemma afterOwner_fields:
  assumes "afterOwner c w = Inr w'"
  shows "m_finished (bridge w') = m_finished (bridge w)"
    "m_request (bridge w') = m_request (bridge w)"
    "m_response (bridge w') = m_response (bridge w)"
    "mainThread w' = mainThread w"
  using reacted_afterOwner [OF assms] by (simp_all add: reacted_def)

lemma finish_finish: "finish (finish b) = finish b"
  by (simp add: finish_def Let_def)

lemma finish_fields:
  "m_finished (finish b)" "m_request (finish b) = None" "m_sync (finish b) = m_sync b"
  "m_cancelling (finish b) = m_cancelling b" "m_response (finish b) = m_response b"
  "m_resourceHandle (finish b) = (if m_sync b then m_resourceHandle b else None)"
  by (simp_all add: finish_def Let_def)

lemma finish_explicit:
  "finish b = b\<lparr>m_resourceHandle := (if m_sync b then m_resourceHandle b else None),
              m_finished := True, m_request := None\<rparr>"
  by (simp add: finish_def Let_def)

lemma isActive_total:
  "m_cancelling b \<or> m_resourceHandle b \<noteq> None \<Longrightarrow> \<exists>a. isActive b = Inr a"
  by (auto simp: isActive_def)

lemma isActive_InrD:
  "isActive b = Inr a \<Longrightarrow> m_cancelling b \<or> m_resourceHandle b \<noteq> None"
  by (auto simp: isActive_def split: if_splits option.splits)

lemma finished_again:
  assumes "m_finished (bridge w)" "m_request (bridge w) = None"
    "\<not> m_sync (bridge w) \<longrightarrow> m_resourceHandle (bridge w) = None"
  shows "w\<lparr>bridge := finish (bridge w)\<rparr> = w"
proof -
  from assms have "finish (bridge w) = bridge w"
    by (cases "m_sync (bridge w)") (simp_all add: finish_def Let_def)
  then show ?thesis by simp
qed

section \<open>What the callbacks and the loops can change\<close>

text \<open>
  A callback keeps the mode and the queue, never clears the cancelling or the finished
  flag, only adds to what is posted and to what the owner was called with, and hands
  nothing to the main thread.
\<close>

definition keeps :: "world \<Rightarrow> world \<Rightarrow> bool" where
  "keeps w w' \<longleftrightarrow>
     m_sync (bridge w') = m_sync (bridge w)
   \<and> m_queue (bridge w') = m_queue (bridge w)
   \<and> (m_cancelling (bridge w) \<longrightarrow> m_cancelling (bridge w'))
   \<and> (m_finished (bridge w) \<longrightarrow> m_finished (bridge w'))
   \<and> (\<exists>more. posted w' = posted w @ more)
   \<and> (\<exists>more. ownerCalls w' = ownerCalls w @ more)
   \<and> mainThread w' = mainThread w
   \<and> (networkThread w \<longrightarrow> networkThread w')"

lemma keeps_refl: "keeps w w"
  by (simp add: keeps_def)

lemma keeps_trans: "keeps w w1 \<Longrightarrow> keeps w1 w2 \<Longrightarrow> keeps w w2"
  by (auto simp: keeps_def)

lemma keeps_reacted: "reacted w w' \<Longrightarrow> keeps w w'"
  by (auto simp: keeps_def reacted_def)

lemma keeps_afterOwner: "afterOwner c w = Inr w' \<Longrightarrow> keeps w w'"
  using reacted_afterOwner [of c w w'] by (auto simp: keeps_def reacted_def)

lemma keeps_callOwner: "callOwner c w = Inr (r, w') \<Longrightarrow> keeps w w'"
  using reacted_callOwner [of c w r w'] by (auto simp: keeps_def reacted_def)

lemma keeps_ioThread: "keeps w (snd (ioThread w))"
  by (simp add: keeps_def ioThread_def split: list.splits)

lemma keeps_PostTask: "keeps w (PostTask t w)"
  by (simp add: keeps_def PostTask_def)

lemma keeps_cancel: "cancel w = Inr w' \<Longrightarrow> keeps w w'"
  by (rule keeps_reacted) (rule reacted_cancel)

lemma keeps_finish: "keeps w (w\<lparr>bridge := finish (bridge w)\<rparr>)"
  by (simp add: keeps_def finish_def Let_def)

lemma keeps_response: "keeps w (w\<lparr>bridge := (bridge w)\<lparr>m_response := r\<rparr>\<rparr>)"
  by (simp add: keeps_def)

lemma keeps_response_afterOwner:
  "afterOwner c (w\<lparr>bridge := (bridge w)\<lparr>m_response := r\<rparr>\<rparr>) = Inr w' \<Longrightarrow> keeps w w'"
  by (rule keeps_trans [OF keeps_response keeps_afterOwner])

lemma keeps_afterOwner_finish:
  "afterOwner c w = Inr w1 \<Longrightarrow> keeps w (w1\<lparr>bridge := finish (bridge w1)\<rparr>)"
  by (rule keeps_trans [OF keeps_afterOwner keeps_finish])

lemma keeps_didReceiveResponse: "didReceiveResponse r w = Inr w' \<Longrightarrow> keeps w w'"
  by (auto simp: didReceiveResponse_def Let_def keeps_refl keeps_response_afterOwner
        split: sum.splits bool.splits)

lemma keeps_didReceiveData: "didReceiveData buf len w = Inr w' \<Longrightarrow> keeps w w'"
  by (auto simp: didReceiveData_def keeps_refl keeps_afterOwner
        split: sum.splits bool.splits option.splits if_splits)

lemma keeps_didReceiveDataUrl: "didReceiveDataUrl str w = Inr w' \<Longrightarrow> keeps w w'"
  by (auto simp: didReceiveDataUrl_def keeps_refl keeps_afterOwner split: sum.splits bool.splits)

lemma keeps_didReceiveAndroidFileData: "didReceiveAndroidFileData vec w = Inr w' \<Longrightarrow> keeps w w'"
  by (auto simp: didReceiveAndroidFileData_def keeps_refl keeps_afterOwner
        split: sum.splits bool.splits)

lemma keeps_authRequired: "authRequired info w = Inr w' \<Longrightarrow> keeps w w'"
  by (auto simp: authRequired_def Let_def keeps_refl keeps_afterOwner split: sum.splits bool.splits)

lemma keeps_didFail: "didFail r w = Inr w' \<Longrightarrow> keeps w w'"
  by (auto simp: didFail_def keeps_afterOwner_finish keeps_finish
        split: sum.splits if_splits)

lemma keeps_didFinishLoading: "didFinishLoading w = Inr w' \<Longrightarrow> keeps w w'"
  by (auto simp: didFinishLoading_def keeps_afterOwner_finish keeps_finish
        split: sum.splits if_splits)

lemma willSendRequest_cases:
  assumes "willSendRequest r w = Inr w'"
  shows "w' = w
       \<or> (\<exists>reaction w1. callOwner (client_willSendRequest (createKurl r) r) w = Inr (reaction, w1)
            \<and> (w' = w1
               \<or> w' = PostTask Req_followDeferredRedirect (snd (ioThread w1))
               \<or> cancel w1 = Inr w'))"
  using assms
  by (auto simp: willSendRequest_def Let_def postMethod_Inr
        split: sum.splits bool.splits if_splits prod.splits)

lemma keeps_willSendRequest:
  assumes "willSendRequest r w = Inr w'"
  shows "keeps w w'"
proof -
  from willSendRequest_cases [OF assms] consider "w' = w"
    | reaction w1 where "callOwner (client_willSendRequest (createKurl r) r) w = Inr (reaction, w1)"
        "w' = w1 \<or> w' = PostTask Req_followDeferredRedirect (snd (ioThread w1))
          \<or> cancel w1 = Inr w'"
    by blast
  then show ?thesis
  proof cases
    case 1
    then show ?thesis by (simp add: keeps_refl)
  next
    case 2
    from keeps_callOwner [OF 2(1)] have k1: "keeps w w1" .
    from keeps_trans [OF k1 keeps_trans [OF keeps_ioThread keeps_PostTask]]
    have k2: "keeps w (PostTask Req_followDeferredRedirect (snd (ioThread w1)))" .
    have k3: "keeps w w'" if "cancel w1 = Inr w'"
      by (rule keeps_trans [OF k1 keeps_cancel [OF that]])
    from 2(2) k1 k2 k3 show ?thesis by blast
  qed
qed

lemma keeps_Run: "Run task w = Inr w' \<Longrightarrow> keeps w w'"
  by (cases task)
     (simp_all add: keeps_didReceiveResponse keeps_didReceiveData keeps_didReceiveDataUrl
        keeps_didReceiveAndroidFileData keeps_didFail keeps_willSendRequest
        keeps_didFinishLoading keeps_authRequired)

lemma runTasks_append:
  "runTasks (xs @ ys) w = (case runTasks xs w of Inl e \<Rightarrow> Inl e | Inr w1 \<Rightarrow> runTasks ys w1)"
  by (induction xs arbitrary: w) (simp_all split: sum.splits)

lemma keeps_runTasks: "runTasks tasks w = Inr w' \<Longrightarrow> keeps w w'"
proof (induction tasks arbitrary: w)
  case Nil
  then show ?case by (simp add: keeps_refl)
next
  case (Cons task tasks)
  then obtain w1 where r: "Run task w = Inr w1" and rest: "runTasks tasks w1 = Inr w'"
    by (auto split: sum.splits)
  from keeps_trans [OF keeps_Run [OF r] Cons.IH [OF rest]] show ?case .
qed

lemma setQueue_empty_id: "m_queue (bridge w) = [] \<Longrightarrow> setQueue [] w = w"
  using setQueue_same [of w] by simp

lemma runQueue_runTasks: "runQueue w = runTasks (m_queue (bridge w)) (setQueue [] w)"
proof (induction w rule: runQueue.induct)
  case (1 w)
  show ?case
  proof (cases "m_queue (bridge w)")
    case Nil
    then show ?thesis by (simp add: runQueue.simps [of w] setQueue_empty_id)
  next
    case (Cons task rest)
    have fr: "Run task (setQueue rest w) = map_sum id (setQueue rest) (Run task (setQueue [] w))"
      using Run_setQueue [of task rest "setQueue [] w"] by simp
    show ?thesis
    proof (cases "Run task (setQueue [] w)")
      case (Inl e)
      with fr Cons show ?thesis by (simp add: runQueue.simps [of w])
    next
      case (Inr v)
      with fr have r: "Run task (setQueue rest w) = Inr (setQueue rest v)" by simp
      from Run_queue [OF Inr] have "m_queue (bridge v) = []" by simp
      then have v: "setQueue [] v = v" by (rule setQueue_empty_id)
      from "1.IH" [OF Cons r] v have "runQueue (setQueue rest v) = runTasks rest v" by simp
      with Cons r Inr show ?thesis by (simp add: runQueue.simps [of w])
    qed
  qed
qed

lemma fold_maybeCallOnMainThread_sync:
  "m_sync (bridge w) \<Longrightarrow>
   fold maybeCallOnMainThread tasks w = setQueue (m_queue (bridge w) @ tasks) w"
proof (induction tasks arbitrary: w)
  case Nil
  then show ?case by simp
next
  case (Cons task tasks)
  have step: "maybeCallOnMainThread task w = setQueue (m_queue (bridge w) @ [task]) w"
    using Cons.prems by (simp add: maybeCallOnMainThread_def setQueue_def)
  have "m_sync (bridge (setQueue (m_queue (bridge w) @ [task]) w))"
    using Cons.prems by (simp add: setQueue_def)
  from Cons.IH [OF this] step show ?case by simp
qed

lemma syncLoop_result:
  assumes "syncLoop pending w = Some (Inr (w', rest))"
    and "m_sync (bridge w)" and "\<not> m_finished (bridge w)"
  shows "\<exists>k\<le>length pending. rest = drop k pending
          \<and> runTasks (m_queue (bridge w) @ concat (take k pending)) (setQueue [] w) = Inr w'
          \<and> m_finished (bridge w') \<and> m_queue (bridge w') = []"
  using assms
proof (induction pending w rule: syncLoop.induct)
  case (1 pending w)
  note nf = \<open>\<not> m_finished (bridge w)\<close> and sy = \<open>m_sync (bridge w)\<close>
  from "1.prems"(1) nf obtain w1 where rq: "runQueue w = Inr w1"
    by (cases "runQueue w") (simp_all add: syncLoop.simps [of pending w])
  from runQueue_empties [OF rq] have q1: "m_queue (bridge w1) = []" .
  from rq have rt: "runTasks (m_queue (bridge w)) (setQueue [] w) = Inr w1"
    by (simp add: runQueue_runTasks)
  from keeps_runTasks [OF rt] sy have sy1: "m_sync (bridge w1)"
    by (simp add: keeps_def setQueue_def)
  show ?case
  proof (cases "m_finished (bridge w1)")
    case True
    with "1.prems"(1) nf rq have "w' = w1" "rest = pending"
      by (simp_all add: syncLoop.simps [of pending w] syncLoop.simps [of pending w1])
    with rt True q1 have "rest = drop 0 pending
          \<and> runTasks (m_queue (bridge w) @ concat (take 0 pending)) (setQueue [] w) = Inr w'
          \<and> m_finished (bridge w') \<and> m_queue (bridge w') = []" by simp
    then show ?thesis by blast
  next
    case False
    with "1.prems"(1) nf rq q1
    have unf: "(case pending of [] \<Rightarrow> None
                | enqueued # pending' \<Rightarrow> syncLoop pending' (fold maybeCallOnMainThread enqueued w1))
               = Some (Inr (w', rest))"
      by (simp add: syncLoop.simps [of pending w])
    then obtain enqueued pending' where p: "pending = enqueued # pending'"
      by (cases pending) simp_all
    define w2 where "w2 = fold maybeCallOnMainThread enqueued w1"
    from fold_maybeCallOnMainThread_sync [OF sy1, of enqueued] q1
    have w2: "w2 = setQueue enqueued w1" by (simp add: w2_def)
    from unf p have loop: "syncLoop pending' w2 = Some (Inr (w', rest))"
      by (simp add: w2_def)
    have sy2: "m_sync (bridge w2)" and nf2: "\<not> m_finished (bridge w2)"
      using sy1 False by (simp_all add: w2 setQueue_def)
    from q1 have "rq_empty": "setQueue [] w2 = w1"
      by (simp add: w2 setQueue_empty_id)
    have c: "m_queue (bridge w1) = [] \<and> \<not> m_finished (bridge w1)" using q1 False by simp
    from "1.IH"(1) [OF nf rq c p loop [unfolded w2_def] sy2 [unfolded w2_def] nf2 [unfolded w2_def]]
    obtain k where k: "k \<le> length pending'" "rest = drop k pending'"
      "runTasks (m_queue (bridge w2) @ concat (take k pending')) (setQueue [] w2) = Inr w'"
      "m_finished (bridge w')" "m_queue (bridge w') = []"
      unfolding w2_def [symmetric] by blast
    from k(3) have "runTasks (enqueued @ concat (take k pending')) w1 = Inr w'"
      by (simp add: rq_empty) (simp add: w2)
    with rt have "runTasks (m_queue (bridge w) @ concat (take (Suc k) pending)) (setQueue [] w) = Inr w'"
      by (simp add: p runTasks_append)
    with k p have "Suc k \<le> length pending \<and> rest = drop (Suc k) pending
          \<and> runTasks (m_queue (bridge w) @ concat (take (Suc k) pending)) (setQueue [] w) = Inr w'
          \<and> m_finished (bridge w') \<and> m_queue (bridge w') = []" by simp
    then show ?thesis by blast
  qed
qed


lemma start_sync_unfold:
  assumes "start True isPrivateBrowsing pending w = Some (Inr (True, w', rest))"
  shows "\<exists>w2. fst (ioThread w)
        \<and> syncLoop pending (PostTask (Req_start isPrivateBrowsing)
               ((snd (ioThread w))\<lparr>bridge := (bridge w)\<lparr>m_sync := True\<rparr>\<rparr>)) = Some (Inr (w2, rest))
        \<and> w' = w2\<lparr>bridge := (bridge w2)\<lparr>m_resourceHandle := None\<rparr>\<rparr>"
proof -
  obtain ok w0 where io: "ioThread w = (ok, w0)" by (cases "ioThread w")
  from io have b: "bridge w0 = bridge w"
    by (auto simp: ioThread_def split: if_splits list.splits)
  from assms io have ok: "ok" by (cases ok) (simp_all add: start_def)
  with assms io b show ?thesis
    by (auto simp: start_def Let_def postMethod_Inr split: option.splits sum.splits)
qed

lemma start_posts:
  assumes "start sync isPrivateBrowsing pending w = Some (Inr (True, w', rest))"
  shows "\<exists>more. posted w' = posted w @ Req_start isPrivateBrowsing # more"
proof (cases sync)
  case False
  obtain ok w0 where io: "ioThread w = (ok, w0)" by (cases "ioThread w")
  from io have "posted w0 = posted w"
    by (auto simp: ioThread_def split: if_splits list.splits)
  with assms io False show ?thesis
    by (cases ok) (auto simp: start_def PostTask_def postMethod_Inr split: sum.splits)
next
  case True
  define wi where "wi = PostTask (Req_start isPrivateBrowsing)
               ((snd (ioThread w))\<lparr>bridge := (bridge w)\<lparr>m_sync := True\<rparr>\<rparr>)"
  from assms True
  have "start True isPrivateBrowsing pending w = Some (Inr (True, w', rest))" by simp
  from start_sync_unfold [OF this] obtain w2 where
    loop: "syncLoop pending wi = Some (Inr (w2, rest))"
    and w': "w' = w2\<lparr>bridge := (bridge w2)\<lparr>m_resourceHandle := None\<rparr>\<rparr>"
    unfolding wi_def by blast
  have wi: "m_sync (bridge wi)" "posted wi = posted w @ [Req_start isPrivateBrowsing]"
    by (simp_all add: wi_def PostTask_def ioThread_def split: list.splits)
  have "\<exists>more. posted w2 = posted wi @ more"
  proof (cases "m_finished (bridge wi)")
    case True
    with loop have "w2 = wi" by (simp add: syncLoop.simps [of pending wi])
    then show ?thesis by simp
  next
    case False
    from syncLoop_result [OF loop wi(1) False] obtain k where
      "runTasks (m_queue (bridge wi) @ concat (take k pending)) (setQueue [] wi) = Inr w2" by blast
    from keeps_runTasks [OF this] show ?thesis by (simp add: keeps_def setQueue_def)
  qed
  with wi(2) w' show ?thesis by auto
qed

lemma isActive_cancelling: "m_cancelling b \<Longrightarrow> isActive b = Inr False"
  by (simp add: isActive_def)

lemma Run_cancelling:
  "m_cancelling (bridge w) \<Longrightarrow>
   Run task w = Inr (if finishing task then w\<lparr>bridge := finish (bridge w)\<rparr> else w)"
  by (cases task)
     (simp_all add: isActive_cancelling didReceiveResponse_def didReceiveData_def
        didReceiveDataUrl_def didReceiveAndroidFileData_def didFail_def willSendRequest_def
        didFinishLoading_def authRequired_def)

lemma runTasks_cancelling:
  "m_cancelling (bridge w) \<Longrightarrow>
   \<exists>w'. runTasks tasks w = Inr w' \<and> m_cancelling (bridge w')
        \<and> ownerCalls w' = ownerCalls w \<and> posted w' = posted w"
proof (induction tasks arbitrary: w)
  case Nil
  then show ?case by simp
next
  case (Cons task tasks)
  define w1 where "w1 = (if finishing task then w\<lparr>bridge := finish (bridge w)\<rparr> else w)"
  from Run_cancelling [OF Cons.prems, of task] have r: "Run task w = Inr w1"
    by (simp add: w1_def)
  have c1: "m_cancelling (bridge w1)" "ownerCalls w1 = ownerCalls w" "posted w1 = posted w"
    using Cons.prems by (simp_all add: w1_def finish_fields)
  from Cons.IH [OF c1(1)] obtain w' where "runTasks tasks w1 = Inr w'" "m_cancelling (bridge w')"
    "ownerCalls w' = ownerCalls w1" "posted w' = posted w1" by blast
  with r c1 show ?case by simp
qed

lemma syncLoop_cancelling:
  assumes "syncLoop pending w = Some (Inr (w', rest))"
    and "m_sync (bridge w)" and "m_cancelling (bridge w)"
  shows "m_cancelling (bridge w')"
proof (cases "m_finished (bridge w)")
  case True
  with assms(1) have "w' = w" by (simp add: syncLoop.simps [of pending w])
  with assms(3) show ?thesis by simp
next
  case False
  from syncLoop_result [OF assms(1,2) False] obtain k where
    "runTasks (m_queue (bridge w) @ concat (take k pending)) (setQueue [] w) = Inr w'" by blast
  from keeps_runTasks [OF this] assms(3) show ?thesis
    by (simp add: keeps_def setQueue_def)
qed

lemma start_cancelling:
  assumes "start sync isPrivateBrowsing pending w = Some (Inr (ok, w', rest))"
    and "m_cancelling (bridge w)"
  shows "m_cancelling (bridge w')"
proof -
  obtain okT w0 where io: "ioThread w = (okT, w0)" by (cases "ioThread w")
  from io have b: "bridge w0 = bridge w"
    by (auto simp: ioThread_def split: if_splits list.splits)
  show ?thesis
  proof (cases "okT \<and> sync")
    case False
    with assms io b show ?thesis
      by (cases okT) (auto simp: start_def PostTask_def postMethod_Inr split: sum.splits)
  next
    case True
    define wi where "wi = PostTask (Req_start isPrivateBrowsing) (w0\<lparr>bridge := (bridge w0)\<lparr>m_sync := True\<rparr>\<rparr>)"
    from assms(1) io True obtain w2 where loop: "syncLoop pending wi = Some (Inr (w2, rest))"
      and w': "w' = w2\<lparr>bridge := (bridge w2)\<lparr>m_resourceHandle := None\<rparr>\<rparr>"
      by (auto simp: start_def wi_def postMethod_Inr split: option.splits sum.splits)
    have "m_sync (bridge wi)" "m_cancelling (bridge wi)"
      using assms(2) b by (simp_all add: wi_def PostTask_def)
    from syncLoop_cancelling [OF loop this] w' show ?thesis by simp
  qed
qed

section \<open>Start without a worker\<close>

text \<open>
  C5. When \<open>ioThread()\<close> returns null, \<open>start\<close> returns false at once, in either mode:
  the bridge is what it was (the mode flag, the cancelling flag and the finished flag
  included), and nothing is posted to the IO thread, handed to the main thread or
  forwarded to the owner; \<open>pending\<close> is untouched, so no callback runs.
\<close>

theorem start_without_worker:
  assumes "ioThread w = (False, w')"
  shows "start sync isPrivateBrowsing pending w = Some (Inr (False, w', pending))
       \<and> bridge w' = bridge w
       \<and> m_sync (bridge w') = m_sync (bridge w)
       \<and> m_cancelling (bridge w') = m_cancelling (bridge w)
       \<and> m_finished (bridge w') = m_finished (bridge w)
       \<and> posted w' = posted w \<and> mainThread w' = mainThread w \<and> ownerCalls w' = ownerCalls w"
proof -
  from assms have same: "bridge w' = bridge w" "posted w' = posted w"
      "mainThread w' = mainThread w" "ownerCalls w' = ownerCalls w"
    by (auto simp: ioThread_def split: if_splits list.splits)
  from assms have "start sync isPrivateBrowsing pending w = Some (Inr (False, w', pending))"
    by (simp add: start_def)
  with same show ?thesis by simp
qed

theorem start_without_worker_witness:
  "ioThread stoppedWorld = (False, stoppedWorld\<lparr>networkThread := False, startResults := []\<rparr>)
   \<and> start True False [[task_didFinishLoading]] stoppedWorld
       = Some (Inr (False, stoppedWorld\<lparr>networkThread := False, startResults := []\<rparr>,
                    [[task_didFinishLoading]]))
   \<and> \<not> m_sync (bridge stoppedWorld) \<and> \<not> m_cancelling (bridge stoppedWorld)
   \<and> \<not> m_finished (bridge stoppedWorld)"
proof -
  have h: "ioThread stoppedWorld = (False, stoppedWorld\<lparr>networkThread := False, startResults := []\<rparr>)"
    by (simp add: ioThread_def stoppedWorld_def)
  from start_without_worker [OF h, of True False "[[task_didFinishLoading]]"] h
  show ?thesis by (simp add: stoppedWorld_def exampleBridge_def)
qed

section \<open>The liveness check\<close>

text \<open>
  C3, as the specification states it, fails: \<open>isActive\<close> does not look at the finished
  flag. A synchronous request that has finished and whose handle still has a client is
  active, and data that arrives then is forwarded.
\<close>

theorem isActive_after_finish_counterexample:
  "didFinishLoading syncWorld = Inr finishedWorld
   \<and> m_finished (bridge finishedWorld)
   \<and> isActive (bridge finishedWorld) = Inr True
   \<and> isActive (bridge finishedWorld) \<noteq> Inr (isActive_spec (bridge finishedWorld))
   \<and> map_sum id ownerCalls (didReceiveDataUrl ''late'' finishedWorld)
       = Inr [client_didFinishLoading, client_didReceiveData ''late'' 4]"
  by (simp add: op_defs syncWorld_def finishedWorld_def runningWorld_def exampleBridge_def isActive_spec_def)

text \<open>
  C3, amended. \<open>isActive\<close> is true exactly when the cancelling flag is clear and the
  handle is held and has a client; it is false exactly when the flag is set or the held
  handle has no client. While it is false, \<open>didReceiveResponse\<close>, \<open>didReceiveData\<close>,
  \<open>didReceiveDataUrl\<close>, \<open>didReceiveAndroidFileData\<close>, \<open>willSendRequest\<close> and
  \<open>authRequired\<close> return with the world unchanged: nothing is forwarded or posted.
\<close>

theorem isActive_gates_delivery:
  "(isActive b = Inr True \<longleftrightarrow> \<not> m_cancelling b \<and> (\<exists>h. m_resourceHandle b = Some h \<and> client h))
   \<and> (isActive b = Inr False \<longleftrightarrow> m_cancelling b \<or> (\<exists>h. m_resourceHandle b = Some h \<and> \<not> client h))
   \<and> (isActive (bridge w) = Inr False \<longrightarrow>
         didReceiveResponse r w = Inr w
       \<and> didReceiveData buf len w = Inr w
       \<and> didReceiveDataUrl str w = Inr w
       \<and> didReceiveAndroidFileData vec w = Inr w
       \<and> willSendRequest r w = Inr w
       \<and> authRequired info w = Inr w)"
  by (auto simp: isActive_def didReceiveResponse_def didReceiveData_def didReceiveDataUrl_def
        didReceiveAndroidFileData_def willSendRequest_def authRequired_def
        split: option.splits if_splits)

theorem isActive_gates_delivery_witness:
  "isActive (bridge cancelledWorld) = Inr False
   \<and> m_cancelling (bridge cancelledWorld)
   \<and> didReceiveResponse exampleResponse cancelledWorld = Inr cancelledWorld
   \<and> didReceiveData ''abc'' 3 cancelledWorld = Inr cancelledWorld
   \<and> willSendRequest exampleResponse cancelledWorld = Inr cancelledWorld
   \<and> ownerCalls cancelledWorld = []"
proof -
  have h: "isActive (bridge cancelledWorld) = Inr False"
    by (simp add: op_defs cancelledWorld_def runningWorld_def exampleBridge_def)
  from isActive_gates_delivery [of "bridge cancelledWorld" cancelledWorld exampleResponse "''abc''" 3] h
  show ?thesis by (simp add: op_defs cancelledWorld_def runningWorld_def exampleBridge_def)
qed

section \<open>Download\<close>

text \<open>
  C6, as the specification states it, fails: \<open>finish()\<close> releases the executor request.
  On a synchronous request that has stored a response and then finished, \<open>downloadFile\<close>
  dereferences the null \<open>m_request\<close> instead of forwarding.
\<close>

theorem downloadFile_after_finish_counterexample:
  "didReceiveResponse exampleResponse syncWorld = Inr respondedWorld
   \<and> didFinishLoading respondedWorld = Inr respondedFinishedWorld
   \<and> m_response (bridge respondedFinishedWorld) = Some exampleResponse
   \<and> downloadFile respondedFinishedWorld = Inl NullDereference"
  by code_simp

text \<open>
  C6, amended. Without a stored response \<open>downloadFile\<close> is fatal. With a stored response,
  and while the executor request is still held (before \<open>finish()\<close> releases it), it makes
  exactly one call on the owner: \<open>downloadStart\<close> with the URL and the user agent of the
  request, the value of the response's content-disposition header (empty when there is
  none), the mime type and the expected size of the response. An active
  \<open>didReceiveResponse\<close> that returns is what stores the response, and it keeps the request.
\<close>

theorem downloadFile_contract:
  "(m_response (bridge w) = None \<longrightarrow> (\<exists>e. downloadFile w = Inl e))
   \<and> (m_response (bridge w) = Some r \<and> m_request (bridge w) = Some rq \<longrightarrow>
        (\<exists>w'. downloadFile w = Inr w'
           \<and> ownerCalls w' = ownerCalls w @
               [frame_downloadStart (m_url (request rq)) (m_userAgent (request rq))
                  (case map_of (headerFields r) ''content-disposition'' of None \<Rightarrow> [] | Some v \<Rightarrow> v)
                  (mimeType r) (expectedSize r)]))
   \<and> (isActive (bridge w) = Inr True \<and> didReceiveResponse r w = Inr w1 \<longrightarrow>
        m_response (bridge w1) = Some r \<and> m_request (bridge w1) = m_request (bridge w))"
proof (intro conjI impI)
  assume "m_response (bridge w) = None"
  then show "\<exists>e. downloadFile w = Inl e"
    by (simp add: downloadFile_def CRASH_def split: option.splits)
next
  assume a: "m_response (bridge w) = Some r \<and> m_request (bridge w) = Some rq"
  define c where "c = frame_downloadStart (m_url (request rq)) (m_userAgent (request rq))
                  (case map_of (headerFields r) ''content-disposition'' of None \<Rightarrow> [] | Some v \<Rightarrow> v)
                  (mimeType r) (expectedSize r)"
  from a have d: "downloadFile w = afterOwner c w"
    by (simp add: downloadFile_def Let_def c_def getHeader_def getUrl_def getUserAgent_def
          getMimeType_def getExpectedSize_def)
  from a have "m_request (bridge w) \<noteq> None" by simp
  from afterOwner_returns [OF this, of c] obtain w' where r: "afterOwner c w = Inr w'" ..
  from afterOwner_ownerCalls [OF r] d r
  have e: "downloadFile w = Inr w' \<and> ownerCalls w' = ownerCalls w @
               [frame_downloadStart (m_url (request rq)) (m_userAgent (request rq))
                  (case map_of (headerFields r) ''content-disposition'' of None \<Rightarrow> [] | Some v \<Rightarrow> v)
                  (mimeType r) (expectedSize r)]"
    by (simp add: c_def)
  show "\<exists>w'. downloadFile w = Inr w'
           \<and> ownerCalls w' = ownerCalls w @
               [frame_downloadStart (m_url (request rq)) (m_userAgent (request rq))
                  (case map_of (headerFields r) ''content-disposition'' of None \<Rightarrow> [] | Some v \<Rightarrow> v)
                  (mimeType r) (expectedSize r)]"
    by (rule exI [of _ w']) (rule e)
next
  assume a: "isActive (bridge w) = Inr True \<and> didReceiveResponse r w = Inr w1"
  then have "afterOwner (client_didReceiveResponse r)
               (w\<lparr>bridge := (bridge w)\<lparr>m_response := Some r\<rparr>\<rparr>) = Inr w1"
    by (auto simp: didReceiveResponse_def Let_def)
  from afterOwner_fields(2,3) [OF this]
  show "m_response (bridge w1) = Some r" and "m_request (bridge w1) = m_request (bridge w)"
    by simp_all
qed

theorem downloadFile_contract_witness:
  "isActive (bridge runningWorld) = Inr True
   \<and> m_response (bridge runningWorld) = None
   \<and> downloadFile runningWorld = Inl Crashed
   \<and> map_sum id ownerCalls
        (case didReceiveResponse exampleResponse runningWorld of
           Inl e \<Rightarrow> Inl e | Inr w1 \<Rightarrow> downloadFile w1)
       = Inr [client_didReceiveResponse exampleResponse,
              frame_downloadStart ''http://example.org/form'' ''agent'' ''attachment''
                ''text/plain'' 42]
   \<and> m_response (bridge respondedWorld) = Some exampleResponse
   \<and> m_request (bridge respondedWorld)
       = Some \<lparr>request = WebResourceRequest_ctor exampleRequest, inputStream = None\<rparr>
   \<and> map_sum id ownerCalls (downloadFile respondedWorld)
       = Inr [client_didReceiveResponse exampleResponse,
              frame_downloadStart ''http://example.org/form'' ''agent'' ''attachment''
                ''text/plain'' 42]"
proof -
  have h: "isActive (bridge runningWorld) = Inr True" "m_response (bridge runningWorld) = None"
    "m_response (bridge respondedWorld) = Some exampleResponse"
    "m_request (bridge respondedWorld)
       = Some \<lparr>request = WebResourceRequest_ctor exampleRequest, inputStream = None\<rparr>"
    by code_simp+
  have c: "downloadFile runningWorld = Inl Crashed"
    "map_sum id ownerCalls
        (case didReceiveResponse exampleResponse runningWorld of
           Inl e \<Rightarrow> Inl e | Inr w1 \<Rightarrow> downloadFile w1)
       = Inr [client_didReceiveResponse exampleResponse,
              frame_downloadStart ''http://example.org/form'' ''agent'' ''attachment''
                ''text/plain'' 42]"
    "map_sum id ownerCalls (downloadFile respondedWorld)
       = Inr [client_didReceiveResponse exampleResponse,
              frame_downloadStart ''http://example.org/form'' ''agent'' ''attachment''
                ''text/plain'' 42]"
    by code_simp+
  note t = downloadFile_contract [of respondedWorld exampleResponse
      "\<lparr>request = WebResourceRequest_ctor exampleRequest, inputStream = None\<rparr>"]
  from t h c show ?thesis by (intro conjI)
qed

section \<open>Failure and the finish transition\<close>

lemma didFail_Inr:
  assumes "didFail r w = Inr w1"
  shows "\<exists>active v. isActive (bridge w) = Inr active
           \<and> (if active then afterOwner (client_didFail r) w = Inr v else v = w)
           \<and> w1 = v\<lparr>bridge := finish (bridge v)\<rparr>"
  using assms by (auto simp: didFail_def split: sum.splits if_splits)

lemma didFail_inactive:
  "isActive (bridge w) = Inr False \<Longrightarrow> didFail r w = Inr (w\<lparr>bridge := finish (bridge w)\<rparr>)"
  by (simp add: didFail_def)

lemma didFail_returns:
  assumes "isActive (bridge w) = Inr True" and "m_request (bridge w) \<noteq> None"
  shows "\<exists>w1. didFail r w = Inr w1"
proof -
  from afterOwner_returns [OF assms(2), of "client_didFail r"] obtain v where
    "afterOwner (client_didFail r) w = Inr v" ..
  with assms(1) show ?thesis by (simp add: didFail_def)
qed

lemma didFail_effect:
  assumes "didFail r w = Inr w1"
  shows "(\<exists>active. isActive (bridge w) = Inr active
            \<and> ownerCalls w1 = ownerCalls w @ (if active then [client_didFail r] else []))"
    and "m_finished (bridge w1)" and "m_request (bridge w1) = None"
    and "m_sync (bridge w1) = m_sync (bridge w)"
    and "m_resourceHandle (bridge w1) = None
           \<longleftrightarrow> \<not> m_sync (bridge w) \<or> m_resourceHandle (bridge w) = None"
    and "m_cancelling (bridge w) \<longrightarrow> m_cancelling (bridge w1)"
proof -
  from didFail_Inr [OF assms] obtain active v where
    act: "isActive (bridge w) = Inr active"
    and v: "if active then afterOwner (client_didFail r) w = Inr v else v = w"
    and w1: "w1 = v\<lparr>bridge := finish (bridge v)\<rparr>" by blast
  have facts: "ownerCalls v = ownerCalls w @ (if active then [client_didFail r] else [])
      \<and> m_sync (bridge v) = m_sync (bridge w)
      \<and> (m_resourceHandle (bridge v) = None) = (m_resourceHandle (bridge w) = None)
      \<and> (m_cancelling (bridge w) \<longrightarrow> m_cancelling (bridge v))"
  proof (cases active)
    case True
    with v have a: "afterOwner (client_didFail r) w = Inr v" by simp
    from afterOwner_ownerCalls [OF a] afterOwner_sync [OF a] afterOwner_handle [OF a]
      afterOwner_cancelling [OF a] True
    show ?thesis by simp
  next
    case False
    with v show ?thesis by simp
  qed
  from act facts have "isActive (bridge w) = Inr active
      \<and> ownerCalls w1 = ownerCalls w @ (if active then [client_didFail r] else [])"
    by (simp add: w1)
  then show "\<exists>active. isActive (bridge w) = Inr active
            \<and> ownerCalls w1 = ownerCalls w @ (if active then [client_didFail r] else [])"
    by (rule exI [of _ active])
  show "m_finished (bridge w1)" "m_request (bridge w1) = None"
    by (simp_all add: w1 finish_fields)
  show "m_sync (bridge w1) = m_sync (bridge w)"
    using facts by (simp add: w1 finish_fields)
  show "m_resourceHandle (bridge w1) = None
           \<longleftrightarrow> \<not> m_sync (bridge w) \<or> m_resourceHandle (bridge w) = None"
    using facts by (simp add: w1 finish_fields)
  show "m_cancelling (bridge w) \<longrightarrow> m_cancelling (bridge w1)"
    using facts by (simp add: w1 finish_fields)
qed

text \<open>
  C2, as the specification states it, fails. In asynchronous mode \<open>finish\<close> releases
  the handle reference; on a request that is not cancelling the liveness check of a second
  \<open>didFail\<close> then dereferences the null reference.
\<close>

theorem didFail_twice_counterexample:
  "didFail exampleResponse runningWorld = Inr failedWorld
   \<and> didFail exampleResponse failedWorld = Inl NullDereference"
  by code_simp

text \<open>
  C2, amended. \<open>didFail\<close> on an inactive request forwards nothing and finishes; on an
  active request that holds its executor request it returns. Whenever it returns, it has
  forwarded the failure to the owner exactly if the request was active, and then
  finished: the finished flag is set, the executor reference is cleared, the mode is
  kept, and the handle reference is cleared exactly if the mode is asynchronous or it was
  clear already. In synchronous mode, or when the request is cancelling, the liveness
  check of a second \<open>didFail\<close> returns; when it finds the request inactive the second call
  changes nothing at all, and whenever the second call returns it leaves these four as the
  first left them. \<open>finish\<close> after \<open>finish\<close> is \<open>finish\<close>.
\<close>

theorem didFail_finishes:
  "(isActive (bridge w) = Inr False \<longrightarrow> didFail r w = Inr (w\<lparr>bridge := finish (bridge w)\<rparr>))
   \<and> (isActive (bridge w) = Inr True \<and> m_request (bridge w) \<noteq> None \<longrightarrow>
        (\<exists>w1. didFail r w = Inr w1))
   \<and> (didFail r w = Inr w1 \<longrightarrow>
        (\<exists>active. isActive (bridge w) = Inr active
           \<and> ownerCalls w1 = ownerCalls w @ (if active then [client_didFail r] else []))
      \<and> m_finished (bridge w1) \<and> m_request (bridge w1) = None
      \<and> m_sync (bridge w1) = m_sync (bridge w)
      \<and> (m_resourceHandle (bridge w1) = None
           \<longleftrightarrow> \<not> m_sync (bridge w) \<or> m_resourceHandle (bridge w) = None)
      \<and> (m_sync (bridge w) \<or> m_cancelling (bridge w) \<longrightarrow>
           (\<exists>a1. isActive (bridge w1) = Inr a1)
         \<and> (isActive (bridge w1) = Inr False \<longrightarrow> didFail r' w1 = Inr w1)
         \<and> (didFail r' w1 = Inr w2 \<longrightarrow>
              m_finished (bridge w2) \<and> m_request (bridge w2) = None
            \<and> m_sync (bridge w2) = m_sync (bridge w1)
            \<and> (m_resourceHandle (bridge w2) = None \<longleftrightarrow> m_resourceHandle (bridge w1) = None))))
   \<and> finish (finish b) = finish b"
proof (intro conjI impI)
  assume "isActive (bridge w) = Inr False"
  then show "didFail r w = Inr (w\<lparr>bridge := finish (bridge w)\<rparr>)" by (rule didFail_inactive)
next
  assume "isActive (bridge w) = Inr True \<and> m_request (bridge w) \<noteq> None"
  then show "\<exists>w1. didFail r w = Inr w1" using didFail_returns by blast
next
  show "finish (finish b) = finish b" by (rule finish_finish)
next
  assume d: "didFail r w = Inr w1"
  note e = didFail_effect [OF d]
  show "\<exists>active. isActive (bridge w) = Inr active
           \<and> ownerCalls w1 = ownerCalls w @ (if active then [client_didFail r] else [])"
    by (rule e(1))
  show "m_finished (bridge w1)" by (rule e(2))
  show "m_request (bridge w1) = None" by (rule e(3))
  show "m_sync (bridge w1) = m_sync (bridge w)" by (rule e(4))
  show "m_resourceHandle (bridge w1) = None
           \<longleftrightarrow> \<not> m_sync (bridge w) \<or> m_resourceHandle (bridge w) = None"
    by (rule e(5))
next
  assume d: "didFail r w = Inr w1" and mode: "m_sync (bridge w) \<or> m_cancelling (bridge w)"
  note e = didFail_effect [OF d]
  from e(1) obtain active where act: "isActive (bridge w) = Inr active" by blast
  from isActive_InrD [OF act] mode e(4,5,6)
  have live: "m_cancelling (bridge w1) \<or> m_resourceHandle (bridge w1) \<noteq> None" by auto
  from isActive_total [OF live] show "\<exists>a1. isActive (bridge w1) = Inr a1" .
next
  assume d: "didFail r w = Inr w1" and mode: "m_sync (bridge w) \<or> m_cancelling (bridge w)"
    and inactive: "isActive (bridge w1) = Inr False"
  note e = didFail_effect [OF d]
  have "w1\<lparr>bridge := finish (bridge w1)\<rparr> = w1"
    using e(2,3,4,5) by (intro finished_again) auto
  with didFail_inactive [OF inactive, of r'] show "didFail r' w1 = Inr w1" by simp
next
  assume d: "didFail r w = Inr w1" and d2: "didFail r' w1 = Inr w2"
  note e = didFail_effect [OF d] and e2 = didFail_effect [OF d2]
  show "m_finished (bridge w2)" by (rule e2(2))
  show "m_request (bridge w2) = None" by (rule e2(3))
  show "m_sync (bridge w2) = m_sync (bridge w1)" by (rule e2(4))
  show "m_resourceHandle (bridge w2) = None \<longleftrightarrow> m_resourceHandle (bridge w1) = None"
    using e(4,5) e2(5) by auto
qed

text \<open>
  The witness also shows the second call that does not return: the request is still
  active, the owner answers the second failure with \<open>cancel()\<close>, and \<open>cancel()\<close> builds
  its task for the executor request that the first \<open>finish\<close> released.
\<close>

theorem didFail_finishes_witness:
  "isActive (bridge syncWorld) = Inr True \<and> m_sync (bridge syncWorld)
   \<and> m_request (bridge syncWorld) \<noteq> None
   \<and> didFail exampleResponse syncWorld = Inr failedSyncWorld
   \<and> didFail exampleResponse failedSyncWorld
       = Inr (failedSyncWorld\<lparr>ownerCalls :=
                [client_didFail exampleResponse, client_didFail exampleResponse]\<rparr>)
   \<and> m_finished (bridge failedSyncWorld) \<and> m_request (bridge failedSyncWorld) = None
   \<and> m_resourceHandle (bridge failedSyncWorld) = Some \<lparr>client = True\<rparr>
   \<and> isActive (bridge cancelledWorld) = Inr False
   \<and> didFail exampleResponse cancelledWorld
       = Inr (cancelledWorld\<lparr>bridge := finish (bridge cancelledWorld)\<rparr>)
   \<and> isActive (finish (bridge cancelledWorld)) = Inr False
   \<and> didFail exampleResponse (cancelledWorld\<lparr>bridge := finish (bridge cancelledWorld)\<rparr>)
       = Inr (cancelledWorld\<lparr>bridge := finish (bridge cancelledWorld)\<rparr>)
   \<and> didFail exampleResponse cancellingOwnerWorld = Inl NullDereference"
proof -
  have h: "isActive (bridge syncWorld) = Inr True" "m_sync (bridge syncWorld)"
    "m_request (bridge syncWorld) \<noteq> None"
    "didFail exampleResponse syncWorld = Inr failedSyncWorld"
    "didFail exampleResponse failedSyncWorld
       = Inr (failedSyncWorld\<lparr>ownerCalls :=
                [client_didFail exampleResponse, client_didFail exampleResponse]\<rparr>)"
    by code_simp+
  have c: "m_finished (bridge failedSyncWorld)" "m_request (bridge failedSyncWorld) = None"
    "m_resourceHandle (bridge failedSyncWorld) = Some \<lparr>client = True\<rparr>"
    "isActive (bridge cancelledWorld) = Inr False"
    "didFail exampleResponse cancelledWorld
       = Inr (cancelledWorld\<lparr>bridge := finish (bridge cancelledWorld)\<rparr>)"
    "isActive (finish (bridge cancelledWorld)) = Inr False"
    "didFail exampleResponse (cancelledWorld\<lparr>bridge := finish (bridge cancelledWorld)\<rparr>)
       = Inr (cancelledWorld\<lparr>bridge := finish (bridge cancelledWorld)\<rparr>)"
    "didFail exampleResponse cancellingOwnerWorld = Inl NullDereference"
    by code_simp+
  note t = didFail_finishes [of syncWorld exampleResponse failedSyncWorld exampleResponse
      "failedSyncWorld\<lparr>ownerCalls :=
                [client_didFail exampleResponse, client_didFail exampleResponse]\<rparr>" exampleBridge]
  from t h c show ?thesis by (intro conjI)
qed

section \<open>Redirects\<close>








section \<open>Header shaping\<close>

lemma LowerCaseEqualsASCII_eq: "LowerCaseEqualsASCII a b = (map ToLowerASCII a = b)"
  by (induction a b rule: LowerCaseEqualsASCII.induct) auto

lemma SetHeader_fresh:
  "map ToLowerASCII key \<notin> set (map (\<lambda>h. map ToLowerASCII (fst h)) hs)
   \<Longrightarrow> SetHeader key val hs = hs @ [(key, val)]"
  by (induction hs) auto

text \<open>
  What the loop computes on a header map (no two names equal up to ASCII case, as the C
  strings the loop reads): the headers in order, read as C strings, without those named
  \<open>referer\<close> or \<open>user-agent\<close> and without every \<open>cache-control: max-age=0\<close>. This is
  the contract of the specification with the load directive always in force.
\<close>

lemma copyHeaders_filter:
  "distinct (map (\<lambda>h. map ToLowerASCII (fst h))
       (out @ map (\<lambda>(n, v). (fromCString n, fromCString v)) hs))
   \<Longrightarrow> copyHeaders hs out
       = out @ shapeHeaders_spec True (map (\<lambda>(n, v). (fromCString n, fromCString v)) hs)"
proof (induction hs arbitrary: out)
  case Nil
  show ?case by (simp add: shapeHeaders_spec_def)
next
  case (Cons h hs)
  obtain n0 v0 where h: "h = (n0, v0)" by (cases h)
  define n where "n = fromCString n0"
  define v where "v = fromCString v0"
  let ?c = "map (\<lambda>(n, v). (fromCString n, fromCString v)) hs"
  from Cons.prems h have d1: "distinct (map (\<lambda>h. map ToLowerASCII (fst h)) (out @ ?c))"
    by simp
  from Cons.prems h have fresh: "map ToLowerASCII n \<notin> set (map (\<lambda>h. map ToLowerASCII (fst h)) out)"
    by (auto simp: n_def)
  from Cons.prems h have d2: "distinct (map (\<lambda>h. map ToLowerASCII (fst h)) ((out @ [(n, v)]) @ ?c))"
    by (auto simp: n_def)
  show ?case
  proof (cases "map ToLowerASCII n = ''referer'' \<or> map ToLowerASCII n = ''user-agent''
                 \<or> (map ToLowerASCII n = ''cache-control'' \<and> map ToLowerASCII v = ''max-age=0'')")
    case True
    with Cons.IH [OF d1] h show ?thesis
      by (auto simp: LowerCaseEqualsASCII_eq shapeHeaders_spec_def Let_def n_def v_def)
  next
    case False
    with Cons.IH [OF d2] h SetHeader_fresh [OF fresh, of v] show ?thesis
      by (auto simp: LowerCaseEqualsASCII_eq shapeHeaders_spec_def Let_def n_def v_def)
  qed
qed

text \<open>
  C9. The claim is the rule that the comment in the constructor states: skip
  \<open>Cache-Control: max-age=0\<close> if the corresponding load flag is already specified. The
  constructor reads no load flag (the comment before it says that the code does not match,
  the flags not being implemented) and skips the header of every request. On a request
  with no such directive the rule keeps the header; the constructor drops it.
\<close>

theorem header_shaping_drops_cache_control:
  "httpHeaderFields exampleRequest
     = [(''Accept'', ''text/html''), (''Referer'', ''http://example.org/''),
        (''Cache-Control'', ''max-age=0'')]
   \<and> m_requestHeaders (WebResourceRequest_ctor exampleRequest) = [(''Accept'', ''text/html'')]
   \<and> shapeHeaders_spec False (httpHeaderFields exampleRequest)
       = [(''Accept'', ''text/html''), (''Cache-Control'', ''max-age=0'')]"
  by code_simp

section \<open>Construction\<close>

lemma ioThread_again: "fst (ioThread w) \<Longrightarrow> fst (ioThread (snd (ioThread w)))"
  by (auto simp: ioThread_def split: list.splits if_splits)

lemma ioThread_PostTask_again: "fst (ioThread w) \<Longrightarrow> fst (ioThread (PostTask t (snd (ioThread w))))"
  by (auto simp: ioThread_def PostTask_def split: list.splits if_splits)

lemma ioThread_frame:
  "bridge (snd (ioThread w)) = bridge w" "posted (snd (ioThread w)) = posted w"
  "ownerCalls (snd (ioThread w)) = ownerCalls w" "mainThread (snd (ioThread w)) = mainThread w"
  by (simp_all add: ioThread_def split: list.splits)

lemma postMethod_held:
  "m_request (bridge w) \<noteq> None \<Longrightarrow> postMethod t w = Inr (PostTask t w)"
  by (simp add: postMethod_Inr)

lemma appendUploads_posts:
  "fst (ioThread w) \<Longrightarrow> m_request (bridge w) \<noteq> None \<Longrightarrow> list_all supported elements \<Longrightarrow>
   \<exists>w'. appendUploads elements w = Inr w' \<and> posted w' = posted w @ uploadTasks elements
        \<and> bridge w' = bridge w \<and> ownerCalls w' = ownerCalls w \<and> mainThread w' = mainThread w
        \<and> fst (ioThread w')"
proof (induction elements arbitrary: w)
  case Nil
  then show ?case by simp
next
  case (Cons element elements)
  from Cons.prems have rest: "list_all supported elements" by simp
  note held = \<open>m_request (bridge w) \<noteq> None\<close>
  obtain w1 where io: "ioThread w = (True, w1)"
    using Cons.prems(1) by (cases "ioThread w") auto
  then have w1: "w1 = snd (ioThread w)" by simp
  from ioThread_frame [of w] io
  have fr: "bridge w1 = bridge w" "posted w1 = posted w" "ownerCalls w1 = ownerCalls w"
    "mainThread w1 = mainThread w" by simp_all
  have step: "fst (ioThread (PostTask t w1))" "m_request (bridge (PostTask t w1)) \<noteq> None"
    "postMethod t w1 = Inr (PostTask t w1)" for t
    using ioThread_PostTask_again [OF Cons.prems(1), of t] held fr
    by (simp_all add: w1 postMethod_Inr PostTask_def)
  show ?case
  proof (cases element)
    case (data d)
    show ?thesis
    proof (cases "d = []")
      case True
      with data Cons.IH [OF Cons.prems(1) held rest] show ?thesis by simp
    next
      case False
      from Cons.IH [OF step(1,2) rest] obtain w' where
        "appendUploads elements (PostTask (Req_appendBytesToUpload d) w1) = Inr w'"
        "posted w' = posted (PostTask (Req_appendBytesToUpload d) w1) @ uploadTasks elements"
        "bridge w' = bridge (PostTask (Req_appendBytesToUpload d) w1)"
        "ownerCalls w' = ownerCalls (PostTask (Req_appendBytesToUpload d) w1)"
        "mainThread w' = mainThread (PostTask (Req_appendBytesToUpload d) w1)"
        "fst (ioThread w')" by blast
      with data False io fr step(3) [of "Req_appendBytesToUpload d"] show ?thesis
        by (simp add: PostTask_def)
    qed
  next
    case (encodedFile f)
    show ?thesis
    proof (cases "fromCString f = []")
      case True
      with encodedFile Cons.IH [OF Cons.prems(1) held rest] show ?thesis by simp
    next
      case False
      from Cons.IH [OF step(1,2) rest] obtain w' where
        "appendUploads elements (PostTask (Req_appendFileToUpload (fromCString f)) w1) = Inr w'"
        "posted w' = posted (PostTask (Req_appendFileToUpload (fromCString f)) w1)
                      @ uploadTasks elements"
        "bridge w' = bridge (PostTask (Req_appendFileToUpload (fromCString f)) w1)"
        "ownerCalls w' = ownerCalls (PostTask (Req_appendFileToUpload (fromCString f)) w1)"
        "mainThread w' = mainThread (PostTask (Req_appendFileToUpload (fromCString f)) w1)"
        "fst (ioThread w')" by blast
      with encodedFile False io fr step(3) [of "Req_appendFileToUpload (fromCString f)"]
      show ?thesis
        by (simp add: PostTask_def Let_def)
    qed
  next
    case (encodedBlob b)
    with Cons.prems show ?thesis by simp
  qed
qed

lemma appendUploads_step:
  assumes "m_request (bridge w) \<noteq> None" and "supported element"
  shows "\<exists>w1. m_request (bridge w1) \<noteq> None
            \<and> appendUploads (element # elements) w = appendUploads elements w1"
proof -
  obtain ok w0 where io: "ioThread w = (ok, w0)" by (cases "ioThread w")
  from ioThread_frame(1) [of w] io have b0: "bridge w0 = bridge w" by simp
  have held0: "m_request (bridge w0) \<noteq> None" using assms(1) b0 by simp
  have post: "postMethod t w0 = Inr (PostTask t w0)"
    "m_request (bridge (PostTask t w0)) \<noteq> None" for t
    using held0 by (simp_all add: postMethod_Inr PostTask_def)
  show ?thesis
  proof (cases element)
    case (data d)
    show ?thesis
    proof (cases "d = [] \<or> \<not> ok")
      case True
      with data io held0 assms(1) show ?thesis by (cases ok) auto
    next
      case False
      with data io post [of "Req_appendBytesToUpload d"] show ?thesis by auto
    qed
  next
    case (encodedFile f)
    show ?thesis
    proof (cases "fromCString f = [] \<or> \<not> ok")
      case True
      with encodedFile io held0 assms(1) show ?thesis by (cases ok) (auto simp: Let_def)
    next
      case False
      with encodedFile io post [of "Req_appendFileToUpload (fromCString f)"] show ?thesis
        by (auto simp: Let_def)
    qed
  next
    case (encodedBlob b)
    with assms(2) show ?thesis by simp
  qed
qed

lemma appendUploads_blob:
  "m_request (bridge w) \<noteq> None \<Longrightarrow> \<not> list_all supported elements \<Longrightarrow>
   appendUploads elements w = Inl AssertionFailed"
proof (induction elements arbitrary: w)
  case Nil
  then show ?case by simp
next
  case (Cons element elements)
  show ?case
  proof (cases "supported element")
    case True
    with Cons.prems have rest: "\<not> list_all supported elements" by simp
    from appendUploads_step [OF Cons.prems(1) True, of elements] obtain w1 where
      "m_request (bridge w1) \<noteq> None"
      "appendUploads (element # elements) w = appendUploads elements w1" by blast
    with Cons.IH [OF _ rest] show ?thesis by simp
  next
    case False
    then obtain b where "element = encodedBlob b" by (cases element) simp_all
    then show ?thesis by (simp add: LOG_ASSERT_def)
  qed
qed

lemma appendUploads_frame:
  "appendUploads elements w = Inr w' \<Longrightarrow> bridge w' = bridge w \<and> ownerCalls w' = ownerCalls w"
proof (induction elements arbitrary: w)
  case Nil
  then show ?case by simp
next
  case (Cons element elements)
  obtain ok w1 where io: "ioThread w = (ok, w1)" by (cases "ioThread w")
  from ioThread_frame [of w] io
  have fr: "bridge w1 = bridge w" "ownerCalls w1 = ownerCalls w" by simp_all
  have post: "bridge (PostTask t w1) = bridge w" "ownerCalls (PostTask t w1) = ownerCalls w" for t
    using fr by (simp_all add: PostTask_def)
  show ?case
  proof (cases element)
    case (data d)
    with Cons.prems io have "appendUploads elements w = Inr w'
        \<or> appendUploads elements w1 = Inr w'
        \<or> appendUploads elements (PostTask (Req_appendBytesToUpload d) w1) = Inr w'"
      by (auto simp: postMethod_Inr split: if_splits bool.splits sum.splits)
    with Cons.IH fr post show ?thesis by metis
  next
    case (encodedFile f)
    with Cons.prems io have "appendUploads elements w = Inr w'
        \<or> appendUploads elements w1 = Inr w'
        \<or> appendUploads elements (PostTask (Req_appendFileToUpload (fromCString f)) w1) = Inr w'"
      by (auto simp: postMethod_Inr Let_def split: if_splits bool.splits sum.splits)
    with Cons.IH fr post show ?thesis by metis
  next
    case (encodedBlob b)
    with Cons.prems show ?thesis by (simp add: LOG_ASSERT_def)
  qed
qed

lemma compare0_prefix: "compare0 u (length s) s \<longleftrightarrow> (\<exists>rest. u = s @ rest)"
proof
  assume "compare0 u (length s) s"
  then have "u = s @ drop (length s) u"
    using append_take_drop_id [of "length s" u] by (simp add: compare0_def)
  then show "\<exists>rest. u = s @ rest" ..
next
  assume "\<exists>rest. u = s @ rest"
  then show "compare0 u (length s) s" by (auto simp: compare0_def)
qed

lemma isAndroidUrl_prefix:
  "isAndroidUrl u \<longleftrightarrow>
     (\<exists>rest. u = ''file:///android_asset/'' @ rest)
   \<or> (\<exists>rest. u = ''file:///android_res/'' @ rest)
   \<or> (\<exists>rest. u = ''content:'' @ rest)"
  unfolding isAndroidUrl_def androidAssetLen_def androidResourceLen_def androidContentLen_def
    compare0_prefix
  by (simp add: androidAsset_def androidResource_def androidContent_def)

text \<open>
  C8, as the specification states it, fails: for a special scheme the constructor returns
  before it looks at the body. The same POST request posts its two upload tasks when its
  URL is an \<open>http:\<close> URL and nothing when it is a \<open>content:\<close> URL.
\<close>

theorem special_scheme_counterexample:
  "isAndroidUrl (fromCString (url contentRequest)) \<and> \<not> isAndroidUrl (fromCString (url exampleRequest))
   \<and> httpMethod contentRequest = httpMethod exampleRequest
   \<and> httpBody contentRequest = httpBody exampleRequest
   \<and> map_sum id posted
        (WebUrlLoaderClient_ctor exampleStreams (Some \<lparr>client = True\<rparr>) contentRequest runningWorld)
       = Inr []
   \<and> map_sum id posted
        (WebUrlLoaderClient_ctor exampleStreams (Some \<lparr>client = True\<rparr>) exampleRequest runningWorld)
       = Inr [Req_appendBytesToUpload ''abc'', Req_appendFileToUpload ''upload.txt'']"
  by code_simp

text \<open>
  C8, amended. A URL is special exactly when it starts with one of the three prefixes. For
  such a URL the constructor asks the owner for the stream of the URL and binds the
  executor request to it; the rest of the bridge is initialised as for any request (no
  flag set, no response, empty queue), and construction ends there: nothing is posted to
  the IO thread, upload tasks included, and the IO thread is not asked for. For any other
  URL the bridge differs only in that the request is bound to no stream, and the owner is
  not called.
\<close>

theorem special_scheme_construction:
  "(isAndroidUrl u \<longleftrightarrow>
       (\<exists>rest. u = ''file:///android_asset/'' @ rest)
     \<or> (\<exists>rest. u = ''file:///android_res/'' @ rest)
     \<or> (\<exists>rest. u = ''content:'' @ rest))
   \<and> (isAndroidUrl (fromCString (url rr)) \<longrightarrow>
        WebUrlLoaderClient_ctor streams h rr w
          = Inr (w\<lparr>bridge := freshBridge h
                      \<lparr>request = WebResourceRequest_ctor rr, inputStream = Some (streams (fromCString (url rr)))\<rparr>,
                   ownerCalls := ownerCalls w @ [frame_inputStreamForAndroidResource (fromCString (url rr))]\<rparr>))
   \<and> (\<not> isAndroidUrl (fromCString (url rr)) \<and> WebUrlLoaderClient_ctor streams h rr w = Inr w' \<longrightarrow>
        bridge w' = freshBridge h \<lparr>request = WebResourceRequest_ctor rr, inputStream = None\<rparr>
      \<and> ownerCalls w' = ownerCalls w)"
proof (intro conjI impI)
  show "isAndroidUrl u \<longleftrightarrow>
       (\<exists>rest. u = ''file:///android_asset/'' @ rest)
     \<or> (\<exists>rest. u = ''file:///android_res/'' @ rest)
     \<or> (\<exists>rest. u = ''content:'' @ rest)"
    by (rule isAndroidUrl_prefix)
next
  assume "isAndroidUrl (fromCString (url rr))"
  then show "WebUrlLoaderClient_ctor streams h rr w
          = Inr (w\<lparr>bridge := freshBridge h
                      \<lparr>request = WebResourceRequest_ctor rr, inputStream = Some (streams (fromCString (url rr)))\<rparr>,
                   ownerCalls := ownerCalls w @ [frame_inputStreamForAndroidResource (fromCString (url rr))]\<rparr>)"
    by (simp add: WebUrlLoaderClient_ctor_def freshBridge_def Let_def WebResourceRequest_ctor_def)
next
  assume a: "\<not> isAndroidUrl (fromCString (url rr)) \<and> WebUrlLoaderClient_ctor streams h rr w = Inr w'"
  define w1 where "w1 = w\<lparr>bridge := freshBridge h \<lparr>request = WebResourceRequest_ctor rr, inputStream = None\<rparr>\<rparr>"
  from a have "w' = w1 \<or> (\<exists>elements. appendUploads elements w1 = Inr w')"
    by (auto simp: WebUrlLoaderClient_ctor_def freshBridge_def Let_def WebResourceRequest_ctor_def
          w1_def split: option.splits if_splits)
  then have "bridge w' = bridge w1 \<and> ownerCalls w' = ownerCalls w1"
    using appendUploads_frame by blast
  then show "bridge w' = freshBridge h \<lparr>request = WebResourceRequest_ctor rr, inputStream = None\<rparr>"
    and "ownerCalls w' = ownerCalls w"
    by (simp_all add: w1_def)
qed

theorem special_scheme_construction_witness:
  "isAndroidUrl ''content://foo'' \<and> isAndroidUrl (fromCString (url contentRequest))
   \<and> map_sum id (\<lambda>w. m_request (bridge w))
        (WebUrlLoaderClient_ctor exampleStreams (Some \<lparr>client = True\<rparr>) contentRequest runningWorld)
       = Inr (Some \<lparr>request = WebResourceRequest_ctor contentRequest, inputStream = Some 7\<rparr>)
   \<and> map_sum id ownerCalls
        (WebUrlLoaderClient_ctor exampleStreams (Some \<lparr>client = True\<rparr>) contentRequest runningWorld)
       = Inr [frame_inputStreamForAndroidResource ''content://foo'']
   \<and> map_sum id posted
        (WebUrlLoaderClient_ctor exampleStreams (Some \<lparr>client = True\<rparr>) contentRequest runningWorld)
       = Inr []
   \<and> \<not> isAndroidUrl (fromCString (url exampleRequest))
   \<and> map_sum id (\<lambda>w. m_request (bridge w))
        (WebUrlLoaderClient_ctor exampleStreams (Some \<lparr>client = True\<rparr>) exampleRequest runningWorld)
       = Inr (Some \<lparr>request = WebResourceRequest_ctor exampleRequest, inputStream = None\<rparr>)"
proof -
  have h: "isAndroidUrl ''content://foo''" "isAndroidUrl (fromCString (url contentRequest))"
    "\<not> isAndroidUrl (fromCString (url exampleRequest))"
    by code_simp+
  have c: "map_sum id (\<lambda>w. m_request (bridge w))
        (WebUrlLoaderClient_ctor exampleStreams (Some \<lparr>client = True\<rparr>) contentRequest runningWorld)
       = Inr (Some \<lparr>request = WebResourceRequest_ctor contentRequest, inputStream = Some 7\<rparr>)"
    "map_sum id ownerCalls
        (WebUrlLoaderClient_ctor exampleStreams (Some \<lparr>client = True\<rparr>) contentRequest runningWorld)
       = Inr [frame_inputStreamForAndroidResource ''content://foo'']"
    "map_sum id posted
        (WebUrlLoaderClient_ctor exampleStreams (Some \<lparr>client = True\<rparr>) contentRequest runningWorld)
       = Inr []"
    "map_sum id (\<lambda>w. m_request (bridge w))
        (WebUrlLoaderClient_ctor exampleStreams (Some \<lparr>client = True\<rparr>) exampleRequest runningWorld)
       = Inr (Some \<lparr>request = WebResourceRequest_ctor exampleRequest, inputStream = None\<rparr>)"
    by code_simp+
  note t = special_scheme_construction [of "''content://foo''" contentRequest exampleStreams
      "Some \<lparr>client = True\<rparr>" runningWorld]
  from t h c show ?thesis by (intro conjI)
qed

text \<open>
  C7, as the specification states it, fails twice: for a \<open>content:\<close> URL no upload task
  is posted whatever the method and the body, and without an IO thread the non-empty parts
  of a POST body are dropped.
\<close>

theorem construction_uploads_counterexample:
  "isAndroidUrl (fromCString (url contentRequest)) \<and> httpMethod contentRequest = ''POST''
   \<and> httpBody contentRequest = Some [data ''abc'', data [], encodedFile ''upload.txt'', encodedFile []]
   \<and> map_sum id posted
        (WebUrlLoaderClient_ctor exampleStreams (Some \<lparr>client = True\<rparr>) contentRequest runningWorld)
       = Inr []
   \<and> \<not> isAndroidUrl (fromCString (url exampleRequest)) \<and> httpMethod exampleRequest = ''POST''
   \<and> httpBody exampleRequest = Some [data ''abc'', data [], encodedFile ''upload.txt'', encodedFile []]
   \<and> fst (ioThread stoppedWorld) = False
   \<and> map_sum id posted
        (WebUrlLoaderClient_ctor exampleStreams (Some \<lparr>client = True\<rparr>) exampleRequest stoppedWorld)
       = Inr []"
  by code_simp

text \<open>
  C7, amended. For a request whose URL is not special, whose method is neither GET nor
  HEAD and that has a body, constructed while the IO thread is available: when every part
  is raw data or a file, construction posts exactly one append-bytes task per non-empty
  raw-data part and one append-file task per file part with a non-empty name, in the order
  of the parts; an asynchronous \<open>start\<close> then posts the start task right after them,
  and whenever \<open>start\<close> succeeds, in either mode, the start task comes after them in the
  message loop. When some part is of another kind, construction fails the assertion.
\<close>

theorem construction_uploads:
  assumes "\<not> isAndroidUrl (fromCString (url rr))" and "httpBody rr = Some elements"
    and "fromCString (httpMethod rr) \<noteq> ''GET''" and "fromCString (httpMethod rr) \<noteq> ''HEAD''"
    and "fst (ioThread w)"
  shows "(list_all supported elements \<longrightarrow>
           (\<exists>w'. WebUrlLoaderClient_ctor streams h rr w = Inr w'
              \<and> posted w' = posted w @ uploadTasks elements
              \<and> (\<exists>w''. start False isPrivateBrowsing pending w' = Some (Inr (True, w'', pending))
                    \<and> posted w'' = posted w @ uploadTasks elements @ [Req_start isPrivateBrowsing])
              \<and> (\<forall>sync ws rest.
                    start sync isPrivateBrowsing pending w' = Some (Inr (True, ws, rest)) \<longrightarrow>
                    (\<exists>more. posted ws
                       = posted w @ uploadTasks elements @ Req_start isPrivateBrowsing # more))))
       \<and> (\<not> list_all supported elements \<longrightarrow>
            WebUrlLoaderClient_ctor streams h rr w = Inl AssertionFailed)"
proof (intro conjI impI)
  define w1 where "w1 = w\<lparr>bridge := freshBridge h \<lparr>request = WebResourceRequest_ctor rr, inputStream = None\<rparr>\<rparr>"
  have ctor: "WebUrlLoaderClient_ctor streams h rr w = appendUploads elements w1"
    using assms(1-4)
    by (simp add: WebUrlLoaderClient_ctor_def freshBridge_def Let_def WebResourceRequest_ctor_def w1_def)
  have io1: "fst (ioThread w1)"
    using assms(5) by (auto simp: w1_def ioThread_def split: if_splits list.splits)
  have held1: "m_request (bridge w1) \<noteq> None"
    by (simp add: w1_def freshBridge_def)
  {
    assume "list_all supported elements"
    from appendUploads_posts [OF io1 held1 this] obtain w' where
      r: "appendUploads elements w1 = Inr w'" and p: "posted w' = posted w1 @ uploadTasks elements"
      and bw: "bridge w' = bridge w1" and io: "fst (ioThread w')" by blast
    obtain w0 where io0: "ioThread w' = (True, w0)"
      using io by (cases "ioThread w'") auto
    from ioThread_frame(1,2) [of w'] io0 have p0: "posted w0 = posted w'"
      and b0: "bridge w0 = bridge w'" by simp_all
    define w'' where "w'' = PostTask (Req_start isPrivateBrowsing) (w0\<lparr>bridge := (bridge w0)\<lparr>m_sync := False\<rparr>\<rparr>)"
    have s: "start False isPrivateBrowsing pending w' = Some (Inr (True, w'', pending))"
      using io0 b0 bw held1 by (simp add: start_def w''_def postMethod_held)
    have "posted w'' = posted w @ uploadTasks elements @ [Req_start isPrivateBrowsing]"
      using p p0 by (simp add: w''_def PostTask_def w1_def)
    with s have "\<exists>w''. start False isPrivateBrowsing pending w' = Some (Inr (True, w'', pending))
                    \<and> posted w'' = posted w @ uploadTasks elements @ [Req_start isPrivateBrowsing]"
      by blast
    moreover have "\<forall>sync ws rest.
                    start sync isPrivateBrowsing pending w' = Some (Inr (True, ws, rest)) \<longrightarrow>
                    (\<exists>more. posted ws
                       = posted w @ uploadTasks elements @ Req_start isPrivateBrowsing # more)"
    proof (intro allI impI)
      fix sync ws rest
      assume "start sync isPrivateBrowsing pending w' = Some (Inr (True, ws, rest))"
      from start_posts [OF this] obtain more where
        "posted ws = posted w' @ Req_start isPrivateBrowsing # more" ..
      with p have "posted ws = posted w @ uploadTasks elements @ Req_start isPrivateBrowsing # more"
        by (simp add: w1_def)
      then show "\<exists>more. posted ws
                       = posted w @ uploadTasks elements @ Req_start isPrivateBrowsing # more" ..
    qed
    moreover have "WebUrlLoaderClient_ctor streams h rr w = Inr w'"
      "posted w' = posted w @ uploadTasks elements"
      using r p ctor by (simp_all add: w1_def)
    ultimately have "WebUrlLoaderClient_ctor streams h rr w = Inr w'
              \<and> posted w' = posted w @ uploadTasks elements
              \<and> (\<exists>w''. start False isPrivateBrowsing pending w' = Some (Inr (True, w'', pending))
                    \<and> posted w'' = posted w @ uploadTasks elements @ [Req_start isPrivateBrowsing])
              \<and> (\<forall>sync ws rest.
                    start sync isPrivateBrowsing pending w' = Some (Inr (True, ws, rest)) \<longrightarrow>
                    (\<exists>more. posted ws
                       = posted w @ uploadTasks elements @ Req_start isPrivateBrowsing # more))"
      by (intro conjI)
    then show "\<exists>w'. WebUrlLoaderClient_ctor streams h rr w = Inr w'
              \<and> posted w' = posted w @ uploadTasks elements
              \<and> (\<exists>w''. start False isPrivateBrowsing pending w' = Some (Inr (True, w'', pending))
                    \<and> posted w'' = posted w @ uploadTasks elements @ [Req_start isPrivateBrowsing])
              \<and> (\<forall>sync ws rest.
                    start sync isPrivateBrowsing pending w' = Some (Inr (True, ws, rest)) \<longrightarrow>
                    (\<exists>more. posted ws
                       = posted w @ uploadTasks elements @ Req_start isPrivateBrowsing # more))"
      by (rule exI)
  }
  {
    assume "\<not> list_all supported elements"
    from appendUploads_blob [OF held1 this] ctor
    show "WebUrlLoaderClient_ctor streams h rr w = Inl AssertionFailed" by simp
  }
qed


theorem construction_uploads_witness:
  "\<not> isAndroidUrl (fromCString (url exampleRequest))
   \<and> httpBody exampleRequest = Some [data ''abc'', data [], encodedFile ''upload.txt'', encodedFile []]
   \<and> fromCString (httpMethod exampleRequest) \<noteq> ''GET'' \<and> fromCString (httpMethod exampleRequest) \<noteq> ''HEAD''
   \<and> fst (ioThread runningWorld)
   \<and> list_all supported [data ''abc'', data [], encodedFile ''upload.txt'', encodedFile []]
   \<and> map_sum id posted
        (WebUrlLoaderClient_ctor exampleStreams (Some \<lparr>client = True\<rparr>) exampleRequest runningWorld)
       = Inr [Req_appendBytesToUpload ''abc'', Req_appendFileToUpload ''upload.txt'']
   \<and> map_option (map_sum id (\<lambda>(ok, ws, rest). posted ws))
        (case WebUrlLoaderClient_ctor exampleStreams (Some \<lparr>client = True\<rparr>) exampleRequest
                runningWorld of
           Inl e \<Rightarrow> Some (Inl e)
         | Inr w' \<Rightarrow> start True False [[task_didFinishLoading]] w')
       = Some (Inr [Req_appendBytesToUpload ''abc'', Req_appendFileToUpload ''upload.txt'',
                    Req_start False])
   \<and> \<not> list_all supported [data ''abc'', encodedBlob ''blob:1'', data ''def'']
   \<and> WebUrlLoaderClient_ctor exampleStreams (Some \<lparr>client = True\<rparr>) blobRequest runningWorld
       = Inl AssertionFailed"
proof -
  have s: "map_option (map_sum id (\<lambda>(ok, ws, rest). posted ws))
        (case WebUrlLoaderClient_ctor exampleStreams (Some \<lparr>client = True\<rparr>) exampleRequest
                runningWorld of
           Inl e \<Rightarrow> Some (Inl e)
         | Inr w' \<Rightarrow> start True False [[task_didFinishLoading]] w')
       = Some (Inr [Req_appendBytesToUpload ''abc'', Req_appendFileToUpload ''upload.txt'',
                    Req_start False])"
    by code_simp
  have h: "\<not> isAndroidUrl (fromCString (url exampleRequest))"
    "httpBody exampleRequest = Some [data ''abc'', data [], encodedFile ''upload.txt'', encodedFile []]"
    "fromCString (httpMethod exampleRequest) \<noteq> ''GET''" "fromCString (httpMethod exampleRequest) \<noteq> ''HEAD''"
    "fst (ioThread runningWorld)"
    by code_simp+
  have l: "list_all supported [data ''abc'', data [], encodedFile ''upload.txt'', encodedFile []]"
    "\<not> list_all supported [data ''abc'', encodedBlob ''blob:1'', data ''def'']"
    by simp_all
  have c: "map_sum id posted
        (WebUrlLoaderClient_ctor exampleStreams (Some \<lparr>client = True\<rparr>) exampleRequest runningWorld)
       = Inr [Req_appendBytesToUpload ''abc'', Req_appendFileToUpload ''upload.txt'']"
    "WebUrlLoaderClient_ctor exampleStreams (Some \<lparr>client = True\<rparr>) blobRequest runningWorld
       = Inl AssertionFailed"
    by code_simp+
  note t = construction_uploads [OF h, of exampleStreams "Some \<lparr>client = True\<rparr>" False "[]"]
  from t h l c s show ?thesis by (intro conjI)
qed

section \<open>Synchronous start\<close>

text \<open>
  C1. When a synchronous \<open>start\<close> on a request that has not finished returns, the
  finished flag is set, the queue is empty and the handle reference is released. The
  tasks that the IO thread enqueued during the first \<open>k\<close> waits are the ones enqueued
  before the return (\<open>rest\<close> is what comes later); the world at the return is the one
  obtained by running, here in \<open>start\<close> and one after the other, the tasks that were in
  the queue followed by those enqueued tasks in the order they were enqueued, and then
  releasing the handle. Nothing went through \<open>callOnMainThread\<close>.
\<close>

theorem synchronous_start:
  assumes "start True isPrivateBrowsing pending w = Some (Inr (True, w', rest))"
    and "\<not> m_finished (bridge w)"
  shows "m_finished (bridge w') \<and> m_queue (bridge w') = [] \<and> m_resourceHandle (bridge w') = None
       \<and> mainThread w' = mainThread w
       \<and> (\<exists>k\<le>length pending. rest = drop k pending
            \<and> (\<exists>v. runTasks (m_queue (bridge w) @ concat (take k pending))
                     (setQueue [] (PostTask (Req_start isPrivateBrowsing)
                        ((snd (ioThread w))\<lparr>bridge := (bridge w)\<lparr>m_sync := True\<rparr>\<rparr>)))
                   = Inr v
                 \<and> w' = v\<lparr>bridge := (bridge v)\<lparr>m_resourceHandle := None\<rparr>\<rparr>))"
proof -
  define wi where "wi = PostTask (Req_start isPrivateBrowsing)
               ((snd (ioThread w))\<lparr>bridge := (bridge w)\<lparr>m_sync := True\<rparr>\<rparr>)"
  from start_sync_unfold [OF assms(1)] obtain w2 where
    loop: "syncLoop pending wi = Some (Inr (w2, rest))"
    and w': "w' = w2\<lparr>bridge := (bridge w2)\<lparr>m_resourceHandle := None\<rparr>\<rparr>"
    unfolding wi_def by blast
  have wi: "m_sync (bridge wi)" "\<not> m_finished (bridge wi)" "m_queue (bridge wi) = m_queue (bridge w)"
    "mainThread wi = mainThread w"
    using assms(2) by (simp_all add: wi_def PostTask_def ioThread_def split: list.splits)
  from syncLoop_result [OF loop wi(1,2)] obtain k where
    k: "k \<le> length pending" "rest = drop k pending"
    "runTasks (m_queue (bridge wi) @ concat (take k pending)) (setQueue [] wi) = Inr w2"
    "m_finished (bridge w2)" "m_queue (bridge w2) = []" by blast
  from keeps_runTasks [OF k(3)] wi(4) have mt: "mainThread w2 = mainThread w"
    by (simp add: keeps_def setQueue_def)
  have run: "\<exists>v. runTasks (m_queue (bridge w) @ concat (take k pending)) (setQueue [] wi) = Inr v
                 \<and> w' = v\<lparr>bridge := (bridge v)\<lparr>m_resourceHandle := None\<rparr>\<rparr>"
    using k(3) w' wi(3) by simp
  with k(1,2) have "\<exists>k\<le>length pending. rest = drop k pending
            \<and> (\<exists>v. runTasks (m_queue (bridge w) @ concat (take k pending)) (setQueue [] wi) = Inr v
                 \<and> w' = v\<lparr>bridge := (bridge v)\<lparr>m_resourceHandle := None\<rparr>\<rparr>)"
    by blast
  moreover have "m_finished (bridge w')" "m_queue (bridge w') = []"
    "m_resourceHandle (bridge w') = None" "mainThread w' = mainThread w"
    using k(4,5) mt by (simp_all add: w')
  ultimately show ?thesis unfolding wi_def by (intro conjI)
qed


text \<open>
  The witness also shows a run that never returns: the IO thread delivers a response and
  then nothing more.
\<close>

theorem synchronous_start_witness:
  "\<not> m_finished (bridge runningWorld)
   \<and> start True False
        [[task_didReceiveResponse exampleResponse], [],
         [task_didReceiveDataUrl ''abc'', task_didFinishLoading], [task_didFail exampleResponse]]
        runningWorld
       = Some (Inr (True, syncDoneWorld, [[task_didFail exampleResponse]]))
   \<and> m_finished (bridge syncDoneWorld) \<and> m_queue (bridge syncDoneWorld) = []
   \<and> m_resourceHandle (bridge syncDoneWorld) = None
   \<and> start True False [[task_didReceiveResponse exampleResponse]] runningWorld = None"
proof -
  have h: "start True False
        [[task_didReceiveResponse exampleResponse], [],
         [task_didReceiveDataUrl ''abc'', task_didFinishLoading], [task_didFail exampleResponse]]
        runningWorld
       = Some (Inr (True, syncDoneWorld, [[task_didFail exampleResponse]]))"
    "\<not> m_finished (bridge runningWorld)"
    by code_simp+
  have c: "m_finished (bridge syncDoneWorld)" "m_queue (bridge syncDoneWorld) = []"
    "m_resourceHandle (bridge syncDoneWorld) = None"
    "start True False [[task_didReceiveResponse exampleResponse]] runningWorld = None"
    by code_simp+
  note t = synchronous_start [OF h]
  from t h c show ?thesis by (intro conjI)
qed

section \<open>Cancellation\<close>

lemma cancel_bridge:
  "cancel w = Inr wc \<Longrightarrow> bridge wc = (bridge w)\<lparr>m_cancelling := True\<rparr>"
  by (auto simp: cancel_def Let_def ioThread_def postMethod_def NewRunnableMethod_def PostTask_def
        split: list.splits bool.splits option.splits if_splits)

lemma setAuth_bridge: "setAuth username password w = Inr wa \<Longrightarrow> bridge wa = bridge w"
  by (auto simp: setAuth_def ioThread_def postMethod_def NewRunnableMethod_def PostTask_def
        split: list.splits bool.splits option.splits if_splits)

lemma cancelAuth_bridge: "cancelAuth w = Inr wb \<Longrightarrow> bridge wb = bridge w"
  by (auto simp: cancelAuth_def ioThread_def postMethod_def NewRunnableMethod_def PostTask_def
        split: list.splits bool.splits option.splits if_splits)

lemma downloadFile_cancelling:
  assumes "downloadFile w = Inr wd" and "m_cancelling (bridge w)"
  shows "m_cancelling (bridge wd)"
proof -
  from assms(1) obtain call where "afterOwner call w = Inr wd"
    by (auto simp: downloadFile_def Let_def CRASH_def split: option.splits)
  from afterOwner_cancelling [OF this assms(2)] show ?thesis .
qed

text \<open>
  C10, as the specification states it, fails. After \<open>cancel()\<close> on a synchronous request,
  \<open>maybeCallOnMainThread\<close> still appends to the queue of the bridge. After \<open>cancel()\<close> on
  a request that has not started, a synchronous \<open>start\<close> still sets the mode and, once the
  load has finished, releases the handle that the finish transition keeps in that mode.
\<close>

theorem cancel_other_changes_counterexample:
  "cancel syncWorld = Inr cancelledSyncWorld
   \<and> m_cancelling (bridge cancelledSyncWorld)
   \<and> m_queue (bridge cancelledSyncWorld) = []
   \<and> m_queue (bridge (maybeCallOnMainThread (task_didReceiveDataUrl ''abc'') cancelledSyncWorld))
       = [task_didReceiveDataUrl ''abc'']
   \<and> cancel runningWorld = Inr cancelledWorld
   \<and> m_cancelling (bridge cancelledWorld)
   \<and> Run task_didFinishLoading (cancelledWorld\<lparr>bridge := (bridge cancelledWorld)\<lparr>m_sync := True\<rparr>\<rparr>)
       = Inr (cancelledWorld\<lparr>bridge := exampleBridge\<lparr>m_cancelling := True, m_sync := True,
                 m_finished := True, m_request := None\<rparr>\<rparr>)
   \<and> start True False [[task_didFinishLoading]] cancelledWorld
       = Some (Inr (True,
            cancelledWorld\<lparr>bridge := exampleBridge\<lparr>m_resourceHandle := None, m_cancelling := True,
                              m_sync := True, m_finished := True, m_request := None\<rparr>,
                           posted := [Req_cancel, Req_start False]\<rparr>, []))
   \<and> m_sync (bridge cancelledWorld) = False
   \<and> m_resourceHandle (bridge cancelledWorld) = Some \<lparr>client = True\<rparr>"
  by code_simp

text \<open>
  C10, amended. \<open>cancel()\<close>, when it returns, has set the cancelling flag, and it returns
  on a request that holds its executor request. Once the flag is set: every callback
  returns and forwards nothing; \<open>didFail\<close> and \<open>didFinishLoading\<close> perform the finish
  transition, which sets the finished flag, clears the executor reference, clears the
  handle reference in asynchronous mode and changes nothing else; every other callback
  changes nothing; so any sequence of callbacks leaves the flag set, the calls on the
  owner and the posted tasks as they were. \<open>cancel\<close>, \<open>setAuth\<close> and \<open>cancelAuth\<close> leave the
  bridge as it is, \<open>maybeCallOnMainThread\<close> changes the queue in synchronous mode and
  nothing else of the bridge, and \<open>downloadFile\<close> and \<open>start\<close> keep the flag.
\<close>

theorem cancel_is_irreversible:
  "(cancel w = Inr wc \<longrightarrow> m_cancelling (bridge wc))
   \<and> (m_request (bridge w) \<noteq> None \<longrightarrow> (\<exists>wc. cancel w = Inr wc))
   \<and> (m_cancelling (bridge w) \<longrightarrow>
        (\<not> finishing task \<longrightarrow> Run task w = Inr w)
      \<and> (finishing task \<longrightarrow>
           Run task w = Inr (w\<lparr>bridge := (bridge w)
             \<lparr>m_resourceHandle := (if m_sync (bridge w) then m_resourceHandle (bridge w) else None),
              m_finished := True, m_request := None\<rparr>\<rparr>))
      \<and> (\<exists>w'. runTasks tasks w = Inr w' \<and> m_cancelling (bridge w')
             \<and> ownerCalls w' = ownerCalls w \<and> posted w' = posted w)
      \<and> (cancel w = Inr wc \<longrightarrow> bridge wc = bridge w)
      \<and> (setAuth username password w = Inr wa \<longrightarrow> bridge wa = bridge w)
      \<and> (cancelAuth w = Inr wb \<longrightarrow> bridge wb = bridge w)
      \<and> bridge (maybeCallOnMainThread task w)
          = (bridge w)\<lparr>m_queue := (if m_sync (bridge w) then m_queue (bridge w) @ [task]
                                    else m_queue (bridge w))\<rparr>
      \<and> (downloadFile w = Inr wd \<longrightarrow> m_cancelling (bridge wd))
      \<and> (start sync isPrivateBrowsing pending w = Some (Inr (ok, ws, rest)) \<longrightarrow>
            m_cancelling (bridge ws)))"
proof (intro conjI impI)
  assume "cancel w = Inr wc"
  then show "m_cancelling (bridge wc)" by (rule cancel_sets_flag)
next
  assume "m_request (bridge w) \<noteq> None"
  then show "\<exists>wc. cancel w = Inr wc" by (rule cancel_returns)
next
  assume c: "m_cancelling (bridge w)" and nf: "\<not> finishing task"
  from Run_cancelling [OF c, of task] nf show "Run task w = Inr w" by simp
next
  assume c: "m_cancelling (bridge w)" and f: "finishing task"
  from Run_cancelling [OF c, of task] f
  have "Run task w = Inr (w\<lparr>bridge := finish (bridge w)\<rparr>)" by simp
  then show "Run task w = Inr (w\<lparr>bridge := (bridge w)
             \<lparr>m_resourceHandle := (if m_sync (bridge w) then m_resourceHandle (bridge w) else None),
              m_finished := True, m_request := None\<rparr>\<rparr>)"
    by (simp only: finish_explicit)
next
  assume c: "m_cancelling (bridge w)"
  show "\<exists>w'. runTasks tasks w = Inr w' \<and> m_cancelling (bridge w')
             \<and> ownerCalls w' = ownerCalls w \<and> posted w' = posted w"
    using c by (rule runTasks_cancelling)
  show "bridge (maybeCallOnMainThread task w)
          = (bridge w)\<lparr>m_queue := (if m_sync (bridge w) then m_queue (bridge w) @ [task]
                                    else m_queue (bridge w))\<rparr>"
    by (simp add: maybeCallOnMainThread_def)
next
  assume c: "m_cancelling (bridge w)" and k: "cancel w = Inr wc"
  from cancel_bridge [OF k] c show "bridge wc = bridge w" by simp
next
  assume "setAuth username password w = Inr wa"
  then show "bridge wa = bridge w" by (rule setAuth_bridge)
next
  assume "cancelAuth w = Inr wb"
  then show "bridge wb = bridge w" by (rule cancelAuth_bridge)
next
  assume c: "m_cancelling (bridge w)" and d: "downloadFile w = Inr wd"
  from downloadFile_cancelling [OF d c] show "m_cancelling (bridge wd)" .
next
  assume c: "m_cancelling (bridge w)"
    and s: "start sync isPrivateBrowsing pending w = Some (Inr (ok, ws, rest))"
  from start_cancelling [OF s c] show "m_cancelling (bridge ws)" .
qed

theorem cancel_is_irreversible_witness:
  "m_request (bridge runningWorld) \<noteq> None
   \<and> cancel runningWorld = Inr cancelledWorld
   \<and> m_cancelling (bridge cancelledWorld)
   \<and> \<not> finishing (task_didReceiveResponse exampleResponse)
   \<and> Run (task_didReceiveResponse exampleResponse) cancelledWorld = Inr cancelledWorld
   \<and> finishing (task_didFail exampleResponse)
   \<and> Run (task_didFail exampleResponse) cancelledWorld
       = Inr (cancelledWorld\<lparr>bridge := exampleBridge\<lparr>m_resourceHandle := None,
                 m_cancelling := True, m_finished := True, m_request := None\<rparr>\<rparr>)
   \<and> runTasks [task_didReceiveResponse exampleResponse, task_didReceiveDataUrl ''abc'',
               task_willSendRequest exampleResponse, task_authRequired \<lparr>host_and_port = ''h'', realm = ''r''\<rparr>,
               task_didFinishLoading] cancelledWorld
       = Inr (cancelledWorld\<lparr>bridge := exampleBridge\<lparr>m_resourceHandle := None,
                 m_cancelling := True, m_finished := True, m_request := None\<rparr>\<rparr>)
   \<and> cancel cancelledWorld = Inr (cancelledWorld\<lparr>posted := [Req_cancel, Req_cancel]\<rparr>)
   \<and> setAuth ''u'' ''p'' cancelledWorld
       = Inr (cancelledWorld\<lparr>posted := [Req_cancel, Req_setAuth ''u'' ''p'']\<rparr>)
   \<and> cancelAuth cancelledWorld = Inr (cancelledWorld\<lparr>posted := [Req_cancel, Req_cancelAuth]\<rparr>)
   \<and> start True False [[task_didReceiveDataUrl ''abc''], [task_didFail exampleResponse]] cancelledWorld
       = Some (Inr (True,
            cancelledWorld\<lparr>bridge := exampleBridge\<lparr>m_resourceHandle := None, m_cancelling := True,
                              m_sync := True, m_finished := True, m_request := None\<rparr>,
                           posted := [Req_cancel, Req_start False]\<rparr>, []))
   \<and> map_sum id (\<lambda>w. (m_cancelling (bridge w), ownerCalls w))
        (downloadFile (cancelledWorld\<lparr>bridge := (bridge cancelledWorld)
                                          \<lparr>m_response := Some exampleResponse\<rparr>\<rparr>))
       = Inr (True, [frame_downloadStart ''http://example.org/form'' ''agent'' ''attachment''
                       ''text/plain'' 42])"
proof -
  have h: "m_request (bridge runningWorld) \<noteq> None" "cancel runningWorld = Inr cancelledWorld"
    "\<not> finishing (task_didReceiveResponse exampleResponse)"
    "finishing (task_didFail exampleResponse)"
    by code_simp+
  have s: "start True False [[task_didReceiveDataUrl ''abc''], [task_didFail exampleResponse]] cancelledWorld
       = Some (Inr (True,
            cancelledWorld\<lparr>bridge := exampleBridge\<lparr>m_resourceHandle := None, m_cancelling := True,
                              m_sync := True, m_finished := True, m_request := None\<rparr>,
                           posted := [Req_cancel, Req_start False]\<rparr>, []))"
    "map_sum id (\<lambda>w. (m_cancelling (bridge w), ownerCalls w))
        (downloadFile (cancelledWorld\<lparr>bridge := (bridge cancelledWorld)
                                          \<lparr>m_response := Some exampleResponse\<rparr>\<rparr>))
       = Inr (True, [frame_downloadStart ''http://example.org/form'' ''agent'' ''attachment''
                       ''text/plain'' 42])"
    by code_simp+
  have c: "Run (task_didReceiveResponse exampleResponse) cancelledWorld = Inr cancelledWorld"
    "Run (task_didFail exampleResponse) cancelledWorld
       = Inr (cancelledWorld\<lparr>bridge := exampleBridge\<lparr>m_resourceHandle := None,
                 m_cancelling := True, m_finished := True, m_request := None\<rparr>\<rparr>)"
    "runTasks [task_didReceiveResponse exampleResponse, task_didReceiveDataUrl ''abc'',
               task_willSendRequest exampleResponse, task_authRequired \<lparr>host_and_port = ''h'', realm = ''r''\<rparr>,
               task_didFinishLoading] cancelledWorld
       = Inr (cancelledWorld\<lparr>bridge := exampleBridge\<lparr>m_resourceHandle := None,
                 m_cancelling := True, m_finished := True, m_request := None\<rparr>\<rparr>)"
    "cancel cancelledWorld = Inr (cancelledWorld\<lparr>posted := [Req_cancel, Req_cancel]\<rparr>)"
    "setAuth ''u'' ''p'' cancelledWorld
       = Inr (cancelledWorld\<lparr>posted := [Req_cancel, Req_setAuth ''u'' ''p'']\<rparr>)"
    "cancelAuth cancelledWorld = Inr (cancelledWorld\<lparr>posted := [Req_cancel, Req_cancelAuth]\<rparr>)"
    by code_simp+
  note t0 = cancel_is_irreversible [of runningWorld cancelledWorld, THEN conjunct1]
  from t0 h(2) have t: "m_cancelling (bridge cancelledWorld)" by (rule mp)
  from t h c s show ?thesis by (intro conjI)
qed

end
